theory Spec2Isabelle
  imports Complex_Main
begin

section \<open>Data model\<close>

text \<open>
  The operator layer of MatrixSlow (\<open>matrixslow/ops/ops.py\<close>) works on numpy matrices.
  A two-dimensional array is its shape together with its entries; a one-dimensional array
  (an index array, the result of \<open>ravel\<close> or \<open>.A1\<close>) is a list. Entries of value matrices
  are finite floats, read as the real numbers they denote: copying, comparing and clipping
  entries is exact on them, and the arithmetic of the forward values is the exact
  arithmetic of the reals (rounding, overflow and underflow are outside this model).
  Exceptions are values of the type \<open>error\<close>; a call that can raise returns
  \<open>error + 'a\<close>.
\<close>

datatype error =
    AssertionError
  | ZeroDivisionError
  | TypeError
  | ValueError
  | IndexError
  | NotImplementedError

datatype 'a matrix = Matrix (nrows: nat) (ncols: nat) (entry: "nat \<Rightarrow> nat \<Rightarrow> 'a")

definition bind :: "error + 'a \<Rightarrow> ('a \<Rightarrow> error + 'b) \<Rightarrow> error + 'b" where
  "bind m f = (case m of Inl e \<Rightarrow> Inl e | Inr x \<Rightarrow> f x)"

text \<open>The rows of a matrix as nested lists, as numpy prints them.\<close>

definition tolist :: "'a matrix \<Rightarrow> 'a list list" where
  "tolist M = map (\<lambda>i. map (\<lambda>j. entry M i j) [0..<ncols M]) [0..<nrows M]"

text \<open>\<open>xs[i]\<close> on a Python list.\<close>

definition getitem :: "'a list \<Rightarrow> nat \<Rightarrow> error + 'a" where
  "getitem xs i = (if i < length xs then Inr (xs ! i) else Inl IndexError)"

subsection \<open>numpy primitives used by the operators\<close>

text \<open>
  The arguments of \<open>np.zeros((a, b))\<close> are Python objects: an integer is a dimension, any
  other object (here: a bound method) makes numpy raise \<open>TypeError\<close>.
\<close>

datatype pyobj = PyInt nat | PyMethod

definition zeros :: "nat \<Rightarrow> nat \<Rightarrow> real matrix" where
  "zeros r c = Matrix r c (\<lambda>i j. 0)"

definition np_zeros :: "pyobj \<Rightarrow> pyobj \<Rightarrow> error + real matrix" where
  "np_zeros a b =
     (case a of
        PyInt r \<Rightarrow> (case b of PyInt c \<Rightarrow> Inr (zeros r c) | PyMethod \<Rightarrow> Inl TypeError)
      | PyMethod \<Rightarrow> Inl TypeError)"

definition np_eye :: "nat \<Rightarrow> real matrix" where
  "np_eye d = Matrix d d (\<lambda>i j. if i = j then 1 else 0)"

text \<open>\<open>M.T\<close>\<close>

definition transpose_T :: "'a matrix \<Rightarrow> 'a matrix" where
  "transpose_T M = Matrix (ncols M) (nrows M) (\<lambda>i j. entry M j i)"

text \<open>\<open>np.arange(d)\<close>\<close>

definition np_arange :: "nat \<Rightarrow> nat list" where
  "np_arange d = [0..<d]"

text \<open>\<open>xs.reshape((r, c))\<close> of a one-dimensional array, in row-major (C) order.\<close>

definition reshape :: "'a list \<Rightarrow> nat \<times> nat \<Rightarrow> error + 'a matrix" where
  "reshape xs s =
     (case s of (r, c) \<Rightarrow>
        if length xs = r * c then Inr (Matrix r c (\<lambda>i j. xs ! (i * c + j)))
        else Inl ValueError)"

text \<open>\<open>M.ravel()\<close> of an array and \<open>M.A1\<close> of a matrix: the entries in row-major order.\<close>

definition ravel :: "'a matrix \<Rightarrow> 'a list" where
  "ravel M = map (\<lambda>k. entry M (k div ncols M) (k mod ncols M)) [0..<nrows M * ncols M]"

text \<open>\<open>M[idx, :]\<close> and \<open>M[:, idx]\<close> with an index array \<open>idx\<close>.\<close>

definition take_rows :: "'a matrix \<Rightarrow> nat list \<Rightarrow> error + 'a matrix" where
  "take_rows M idx =
     (if list_all (\<lambda>k. k < nrows M) idx
      then Inr (Matrix (length idx) (ncols M) (\<lambda>i j. entry M (idx ! i) j))
      else Inl IndexError)"

definition take_cols :: "'a matrix \<Rightarrow> nat list \<Rightarrow> error + 'a matrix" where
  "take_cols M idx =
     (if list_all (\<lambda>k. k < ncols M) idx
      then Inr (Matrix (nrows M) (length idx) (\<lambda>i j. entry M i (idx ! j)))
      else Inl IndexError)"

text \<open>
  \<open>M[r0:r1, c0:c1] = F\<close>: the slice bounds are clipped to the shape of \<open>M\<close>, and \<open>F\<close> must
  broadcast to the shape of the slice (each dimension equal, or 1), else numpy raises
  \<open>ValueError\<close>. The assignment is in place; the updated matrix is returned.
\<close>

definition set_slice ::
  "'a matrix \<Rightarrow> nat \<Rightarrow> nat \<Rightarrow> nat \<Rightarrow> nat \<Rightarrow> 'a matrix \<Rightarrow> error + 'a matrix" where
  "set_slice M r0 r1 c0 c1 F =
     (let a0 = min r0 (nrows M); a1 = max a0 (min r1 (nrows M));
          b0 = min c0 (ncols M); b1 = max b0 (min c1 (ncols M))
      in if (nrows F = a1 - a0 \<or> nrows F = 1) \<and> (ncols F = b1 - b0 \<or> ncols F = 1)
         then Inr (Matrix (nrows M) (ncols M)
                (\<lambda>i j. if a0 \<le> i \<and> i < a1 \<and> b0 \<le> j \<and> j < b1
                       then entry F (if nrows F = 1 then 0 else i - a0)
                                    (if ncols F = 1 then 0 else j - b0)
                       else entry M i j))
         else Inl ValueError)"

section \<open>The block-diagonal filler\<close>

text \<open>
  \<open>fill_diagonal(to_be_filled, filler)\<close>. The two ratios of the assertion are Python's true
  division of the shape entries, which raises \<open>ZeroDivisionError\<close> on a zero divisor; they
  are modelled as exact rationals (on shapes of arrays that fit in memory the float
  quotients are equal exactly when the rationals are). \<open>int\<close> truncates the quotient.
\<close>

definition truediv :: "nat \<Rightarrow> nat \<Rightarrow> error + rat" where
  "truediv a b = (if b = 0 then Inl ZeroDivisionError else Inr (of_nat a / of_nat b))"

primrec fill_loop :: "nat list \<Rightarrow> nat \<Rightarrow> nat \<Rightarrow> 'a matrix \<Rightarrow> 'a matrix \<Rightarrow> error + 'a matrix" where
  "fill_loop [] r c filler to_be_filled = Inr to_be_filled"
| "fill_loop (i # is) r c filler to_be_filled =
     bind (set_slice to_be_filled (i * r) ((i + 1) * r) (i * c) ((i + 1) * c) filler)
          (fill_loop is r c filler)"

definition fill_diagonal :: "'a matrix \<Rightarrow> 'a matrix \<Rightarrow> error + 'a matrix" where
  "fill_diagonal to_be_filled filler =
     bind (truediv (nrows to_be_filled) (nrows filler)) (\<lambda>q1.
     bind (truediv (ncols to_be_filled) (ncols filler)) (\<lambda>q2.
       if q1 \<noteq> q2 then Inl AssertionError
       else
         let n = nat \<lfloor>q1\<rfloor>; r = nrows filler; c = ncols filler
         in fill_loop [0..<n] r c filler to_be_filled))"

section \<open>Nodes of the computation graph\<close>

text \<open>
  A node object has a list of parents and a value slot. Nodes are referred to by their
  identity (\<open>parent is self.parents[0]\<close> compares identities), and the graph is a store from
  identities to node objects, so that an update of one node's value is seen through every
  reference to that node. The operators are modelled on graphs whose value slots hold
  matrices.
\<close>

type_synonym nid = nat

record node =
  parents :: "nid list"
  nvalue :: "real matrix"

type_synonym graph = "nid \<Rightarrow> node"

definition set_value :: "graph \<Rightarrow> nid \<Rightarrow> real matrix \<Rightarrow> graph" where
  "set_value g n v = g(n := (g n)\<lparr>nvalue := v\<rparr>)"

definition shape :: "graph \<Rightarrow> nid \<Rightarrow> nat \<times> nat" where
  \<comment> \<open>Modelled from the spec: \<open>Node.shape()\<close> of \<open>matrixslow/core\<close>, which is not part of
      the sources at hand: "(rows, cols) of the node's current value".\<close>
  "shape g n = (nrows (nvalue (g n)), ncols (nvalue (g n)))"

definition dimension :: "graph \<Rightarrow> nid \<Rightarrow> nat" where
  \<comment> \<open>Modelled from the spec: \<open>Node.dimension()\<close> of \<open>matrixslow/core\<close>, which is not part
      of the sources at hand: "rows\<times>cols", a method (the operators call it).\<close>
  "dimension g n = nrows (nvalue (g n)) * ncols (nvalue (g n))"

section \<open>Add\<close>

text \<open>
  \<open>X += Y\<close> on arrays: \<open>Y\<close> must broadcast to the shape of \<open>X\<close>, the result has the shape
  of \<open>X\<close>.
\<close>

definition iadd :: "real matrix \<Rightarrow> real matrix \<Rightarrow> error + real matrix" where
  "iadd X Y =
     (if (nrows Y = nrows X \<or> nrows Y = 1) \<and> (ncols Y = ncols X \<or> ncols Y = 1)
      then Inr (Matrix (nrows X) (ncols X)
             (\<lambda>i j. entry X i j +
                    entry Y (if nrows Y = 1 then 0 else i) (if ncols Y = 1 then 0 else j)))
      else Inl ValueError)"

primrec Add_loop :: "nid list \<Rightarrow> nid \<Rightarrow> graph \<Rightarrow> error + graph" where
  "Add_loop [] self g = Inr g"
| "Add_loop (parent # ps) self g =
     bind (iadd (nvalue (g self)) (nvalue (g parent)))
          (\<lambda>v. Add_loop ps self (set_value g self v))"

definition Add_compute :: "graph \<Rightarrow> nid \<Rightarrow> error + graph" where
  "Add_compute g self =
     bind (getitem (parents (g self)) 0) (\<lambda>p0.
       case shape g p0 of (r, c) \<Rightarrow>
         bind (np_zeros (PyInt r) (PyInt c)) (\<lambda>z.
           Add_loop (parents (g self)) self (set_value g self z)))"

definition Add_get_jacobi :: "graph \<Rightarrow> nid \<Rightarrow> nid \<Rightarrow> error + real matrix" where
  "Add_get_jacobi g self parent = Inr (np_eye (dimension g self))"

section \<open>MatMul\<close>

definition mat_product :: "real matrix \<Rightarrow> real matrix \<Rightarrow> real matrix" where
  "mat_product A B =
     Matrix (nrows A) (ncols B)
       (\<lambda>i j. sum_list (map (\<lambda>l. entry A i l * entry B l j) [0..<ncols A]))"

text \<open>\<open>A * B\<close> on numpy matrices.\<close>

definition matmul :: "real matrix \<Rightarrow> real matrix \<Rightarrow> error + real matrix" where
  "matmul A B = (if ncols A = nrows B then Inr (mat_product A B) else Inl ValueError)"

definition MatMul_compute :: "graph \<Rightarrow> nid \<Rightarrow> error + graph" where
  "MatMul_compute g self =
     (let ps = parents (g self)
      in if length ps = 2 \<and> snd (shape g (ps ! 0)) = fst (shape g (ps ! 1))
         then bind (matmul (nvalue (g (ps ! 0))) (nvalue (g (ps ! 1))))
                   (\<lambda>v. Inr (set_value g self v))
         else Inl AssertionError)"

definition MatMul_get_jacobi :: "graph \<Rightarrow> nid \<Rightarrow> nid \<Rightarrow> error + real matrix" where
  "MatMul_get_jacobi g self parent =
     bind (np_zeros (PyInt (dimension g self)) (PyInt (dimension g parent))) (\<lambda>zeros.
     bind (getitem (parents (g self)) 0) (\<lambda>p0.
       if parent = p0 then
         bind (getitem (parents (g self)) 1) (\<lambda>p1.
           fill_diagonal zeros (transpose_T (nvalue (g p1))))
       else
         bind (fill_diagonal zeros (nvalue (g p0))) (\<lambda>jacobi.
         bind (reshape (np_arange (dimension g self)) (prod.swap (shape g self))) (\<lambda>rgrid.
         bind (reshape (np_arange (dimension g parent)) (prod.swap (shape g parent))) (\<lambda>cgrid.
           let row_sort = ravel (transpose_T rgrid);
               col_sort = ravel (transpose_T cgrid)
           in bind (take_rows jacobi row_sort) (\<lambda>sel. take_cols sel col_sort))))))"

section \<open>SoftMax\<close>

text \<open>
  \<open>SoftMax.softmax(a)\<close> first assigns into its argument (\<open>a[a > 1e2] = 1e2\<close>) and then
  returns a new array; the model returns both the argument as it is left behind and the
  result. \<open>np.sum(ep)\<close> adds all entries; the quotient is only ever read at an entry of a
  non-empty matrix.
\<close>

definition np_sum :: "real matrix \<Rightarrow> real" where
  "np_sum M = sum_list (ravel M)"

definition SoftMax_softmax :: "real matrix \<Rightarrow> real matrix \<times> real matrix" where
  "SoftMax_softmax a =
     (let a' = Matrix (nrows a) (ncols a)
                 (\<lambda>i j. if entry a i j > 100 then 100 else entry a i j);
          ep = Matrix (nrows a') (ncols a') (\<lambda>i j. exp (entry a' i j));
          s = np_sum ep
      in (a', Matrix (nrows ep) (ncols ep) (\<lambda>i j. entry ep i j / s)))"

definition SoftMax_compute :: "graph \<Rightarrow> nid \<Rightarrow> error + graph" where
  "SoftMax_compute g self =
     bind (getitem (parents (g self)) 0) (\<lambda>p0.
       case SoftMax_softmax (nvalue (g p0)) of (a', v) \<Rightarrow>
         Inr (set_value (set_value g p0 a') self v))"

definition SoftMax_get_jacobi :: "graph \<Rightarrow> nid \<Rightarrow> nid \<Rightarrow> error + real matrix" where
  "SoftMax_get_jacobi g self parent = Inl NotImplementedError"

section \<open>Step\<close>

definition Step_compute :: "graph \<Rightarrow> nid \<Rightarrow> error + graph" where
  "Step_compute g self =
     bind (getitem (parents (g self)) 0) (\<lambda>p0.
       let x = nvalue (g p0)
       in Inr (set_value g self
                (Matrix (nrows x) (ncols x) (\<lambda>i j. if entry x i j \<ge> 0 then 1 else 0))))"

text \<open>
  \<open>np.zeros((self.dimension, self.dimension))\<close>: the attribute \<open>dimension\<close> is not called,
  so both arguments are the bound method.
\<close>

definition Step_get_jacobi :: "graph \<Rightarrow> nid \<Rightarrow> nid \<Rightarrow> error + real matrix" where
  "Step_get_jacobi g self parent = np_zeros PyMethod PyMethod"

section \<open>logistic\<close>

definition logistic_compute :: "graph \<Rightarrow> nid \<Rightarrow> error + graph" where
  "logistic_compute g self =
     bind (getitem (parents (g self)) 0) (\<lambda>p0.
       let x = nvalue (g p0)
       in Inr (set_value g self
                (Matrix (nrows x) (ncols x)
                   (\<lambda>i j. 1 / (1 + exp (if - entry x i j > 100 then 100 else - entry x i j))))))"

text \<open>\<open>1 - M\<close>, \<open>np.multiply(X, Y)\<close> with numpy's broadcasting, and \<open>np.diag\<close> of a
  one-dimensional array.\<close>

definition rsub :: "real \<Rightarrow> real matrix \<Rightarrow> real matrix" where
  "rsub x M = Matrix (nrows M) (ncols M) (\<lambda>i j. x - entry M i j)"

definition broadcast_dim :: "nat \<Rightarrow> nat \<Rightarrow> error + nat" where
  "broadcast_dim a b =
     (if a = b then Inr a else if a = 1 then Inr b else if b = 1 then Inr a
      else Inl ValueError)"

definition np_multiply :: "real matrix \<Rightarrow> real matrix \<Rightarrow> error + real matrix" where
  "np_multiply X Y =
     bind (broadcast_dim (nrows X) (nrows Y)) (\<lambda>r.
     bind (broadcast_dim (ncols X) (ncols Y)) (\<lambda>c.
       Inr (Matrix r c
         (\<lambda>i j. entry X (if nrows X = 1 then 0 else i) (if ncols X = 1 then 0 else j) *
                entry Y (if nrows Y = 1 then 0 else i) (if ncols Y = 1 then 0 else j)))))"

definition np_diag :: "real list \<Rightarrow> real matrix" where
  "np_diag v = Matrix (length v) (length v) (\<lambda>i j. if i = j then v ! i else 0)"

definition logistic_get_jacobi :: "graph \<Rightarrow> nid \<Rightarrow> nid \<Rightarrow> error + real matrix" where
  "logistic_get_jacobi g self parent =
     bind (np_multiply (nvalue (g self)) (rsub 1 (nvalue (g self))))
          (\<lambda>d. Inr (np_diag (ravel d)))"

section \<open>Vectorisation and the action of a Jacobian\<close>

text \<open>
  The two flattening orders of a matrix, and the product of a matrix with a flattened
  perturbation. Row-major order is the order of \<open>ravel\<close>; column-major order lists the
  first column first.
\<close>

definition vec_row :: "'a matrix \<Rightarrow> 'a list" where
  "vec_row M = ravel M"

definition vec_col :: "'a matrix \<Rightarrow> 'a list" where
  "vec_col M = ravel (transpose_T M)"

definition matvec :: "real matrix \<Rightarrow> real list \<Rightarrow> real list" where
  "matvec J v =
     map (\<lambda>x. sum_list (map (\<lambda>y. entry J x y * v ! y) [0..<ncols J])) [0..<nrows J]"

definition mk_matrix :: "'a list list \<Rightarrow> 'a matrix" where
  \<comment> \<open>a matrix written out by its rows, \<open>np.mat([[..], ..])\<close> of a non-empty list of rows\<close>
  "mk_matrix rows = Matrix (length rows) (length (hd rows)) (\<lambda>i j. rows ! i ! j)"

definition is_identity_matrix :: "real matrix \<Rightarrow> bool" where
  "is_identity_matrix M =
     (nrows M = ncols M \<and>
      list_all (\<lambda>i. list_all (\<lambda>j. entry M i j = (if i = j then 1 else 0)) [0..<ncols M])
        [0..<nrows M])"

section \<open>Results of a forward pass followed by a Jacobian query\<close>

text \<open>
  \<open>jacobi_after compute get_jacobi g self parent\<close> runs \<open>self.compute()\<close> and then
  \<open>self.get_jacobi(parent)\<close> on the graph that \<open>compute\<close> leaves behind; it returns that
  graph and the Jacobian, or the first exception. The functions after it read a result.
\<close>

definition jacobi_after ::
  "(graph \<Rightarrow> nid \<Rightarrow> error + graph) \<Rightarrow> (graph \<Rightarrow> nid \<Rightarrow> nid \<Rightarrow> error + real matrix)
   \<Rightarrow> graph \<Rightarrow> nid \<Rightarrow> nid \<Rightarrow> error + graph \<times> real matrix" where
  "jacobi_after compute get_jacobi g self parent =
     bind (compute g self) (\<lambda>g'. bind (get_jacobi g' self parent) (\<lambda>J. Inr (g', J)))"

definition action_on :: "error + graph \<times> real matrix \<Rightarrow> real list \<Rightarrow> error + real list" where
  "action_on r v = map_sum id (\<lambda>(g', J). matvec J v) r"

definition jacobi_shape :: "error + graph \<times> real matrix \<Rightarrow> error + nat \<times> nat" where
  "jacobi_shape r = map_sum id (\<lambda>(g', J). (nrows J, ncols J)) r"

definition jacobi_rows :: "error + graph \<times> real matrix \<Rightarrow> error + real list list" where
  "jacobi_rows r = map_sum id (\<lambda>(g', J). tolist J) r"

definition dimensions_after ::
  "error + graph \<times> real matrix \<Rightarrow> nid \<Rightarrow> nid \<Rightarrow> error + nat \<times> nat" where
  "dimensions_after r self parent =
     map_sum id (\<lambda>(g', J). (dimension g' self, dimension g' parent)) r"

definition value_after :: "error + graph \<Rightarrow> nid \<Rightarrow> error + real list list" where
  "value_after r n = map_sum id (\<lambda>g'. tolist (nvalue (g' n))) r"


definition shape_of :: "error + 'a matrix \<Rightarrow> error + nat \<times> nat" where
  "shape_of r = map_sum id (\<lambda>M. (nrows M, ncols M)) r"

definition entry_of :: "error + 'a matrix \<Rightarrow> nat \<Rightarrow> nat \<Rightarrow> error + 'a" where
  "entry_of r i j = map_sum id (\<lambda>M. entry M i j) r"

section \<open>Example graphs\<close>

text \<open>A graph given by the list of its node objects; node \<open>n\<close> is the \<open>n\<close>-th of the list.\<close>

definition graph_of :: "node list \<Rightarrow> graph" where
  "graph_of ns n = (if n < length ns then ns ! n else \<lparr>parents = [], nvalue = zeros 0 0\<rparr>)"

text \<open>
  The scenario of the specification: node 2 is the product of node 0, \<open>A = [[1,2],[3,4]]\<close>,
  and node 1, \<open>B = [[5,6],[7,8]]\<close>, and holds \<open>A\<cdot>B\<close>; node 3 is not a parent of node 2.
\<close>

definition matmul_graph :: graph where
  "matmul_graph = graph_of
     [\<lparr>parents = [], nvalue = mk_matrix [[1, 2], [3, 4]]\<rparr>,
      \<lparr>parents = [], nvalue = mk_matrix [[5, 6], [7, 8]]\<rparr>,
      \<lparr>parents = [0, 1], nvalue = mk_matrix [[19, 22], [43, 50]]\<rparr>,
      \<lparr>parents = [], nvalue = mk_matrix [[9, 9], [9, 9]]\<rparr>]"

text \<open>
  A product of non-square matrices: node 2 is the product of node 0, the \<open>2\<times>1\<close> matrix
  \<open>[[1],[2]]\<close>, and node 1, the \<open>1\<times>3\<close> matrix \<open>[[3,4,5]]\<close>.
\<close>

definition rect_graph :: graph where
  "rect_graph = graph_of
     [\<lparr>parents = [], nvalue = mk_matrix [[1], [2]]\<rparr>,
      \<lparr>parents = [], nvalue = mk_matrix [[3, 4, 5]]\<rparr>,
      \<lparr>parents = [0, 1], nvalue = mk_matrix [[3, 4, 5], [6, 8, 10]]\<rparr>]"

text \<open>
  Node 2 adds a \<open>2\<times>2\<close> and a \<open>1\<times>1\<close> parent and holds their (broadcast) sum; node 3 is not
  a parent of node 2.
\<close>

definition add_graph :: graph where
  "add_graph = graph_of
     [\<lparr>parents = [], nvalue = mk_matrix [[1, 2], [3, 4]]\<rparr>,
      \<lparr>parents = [], nvalue = mk_matrix [[10]]\<rparr>,
      \<lparr>parents = [0, 1], nvalue = mk_matrix [[11, 12], [13, 14]]\<rparr>,
      \<lparr>parents = [], nvalue = mk_matrix [[7, 8, 9]]\<rparr>]"

text \<open>Node 2 adds two \<open>2\<times>2\<close> parents; its value has not been computed yet.\<close>

definition sum_graph :: graph where
  "sum_graph = graph_of
     [\<lparr>parents = [], nvalue = mk_matrix [[1, 2], [3, 4]]\<rparr>,
      \<lparr>parents = [], nvalue = mk_matrix [[10, 20], [30, 40]]\<rparr>,
      \<lparr>parents = [0, 1], nvalue = zeros 0 0\<rparr>]"

text \<open>Node 1 is the SoftMax of node 0, which has an entry above the threshold.\<close>

definition softmax_graph :: graph where
  "softmax_graph = graph_of
     [\<lparr>parents = [], nvalue = mk_matrix [[200, 1]]\<rparr>,
      \<lparr>parents = [0], nvalue = zeros 0 0\<rparr>]"


text \<open>Node 1 is a logistic node with parent 0; it holds a value with entries in \<open>(0,1)\<close>.\<close>

definition logistic_graph :: graph where
  "logistic_graph = graph_of
     [\<lparr>parents = [], nvalue = mk_matrix [[0, 0], [0, 0]]\<rparr>,
      \<lparr>parents = [0], nvalue = mk_matrix [[1 / 2, 1 / 4], [1 / 8, 3 / 4]]\<rparr>]"

section \<open>Basic facts\<close>

lemma bind_Inr [simp]: "bind (Inr x) f = f x" by (simp add: bind_def)
lemma bind_Inl [simp]: "bind (Inl e) f = Inl e" by (simp add: bind_def)

lemma block_index:
  assumes "0 < (r::nat)"
  shows "(i * r \<le> x \<and> x < (i + 1) * r) \<longleftrightarrow> x div r = i"
proof
  assume "i * r \<le> x \<and> x < (i + 1) * r"
  then show "x div r = i"
    by (metis add.commute div_nat_eqI mult.commute plus_1_eq_Suc)
next
  assume "x div r = i"
  then show "i * r \<le> x \<and> x < (i + 1) * r"
    using assms
    by (metis Suc_eq_plus1 div_times_less_eq_dividend dividend_less_div_times mult.commute mult_Suc)
qed

lemma block_offset: "x div r = i \<Longrightarrow> x - i * r = x mod (r::nat)"
  by (metis minus_div_mult_eq_mod)

lemma set_slice_block:
  assumes "0 < r" "0 < c" "nrows F = r" "ncols F = c"
    "(i + 1) * r \<le> nrows M" "(i + 1) * c \<le> ncols M"
  shows "\<exists>M'. set_slice M (i * r) ((i + 1) * r) (i * c) ((i + 1) * c) F = Inr M'
     \<and> nrows M' = nrows M \<and> ncols M' = ncols M
     \<and> (\<forall>x y. entry M' x y =
          (if x div r = i \<and> y div c = i then entry F (x mod r) (y mod c) else entry M x y))"
proof -
  have a: "min (i * r) (nrows M) = i * r" "min ((i + 1) * r) (nrows M) = (i + 1) * r"
       "min (i * c) (ncols M) = i * c" "min ((i + 1) * c) (ncols M) = (i + 1) * c"
    using assms by auto
  have b: "max (i * r) ((i + 1) * r) = (i + 1) * r" "max (i * c) ((i + 1) * c) = (i + 1) * c"
    by auto
  have d: "(i + 1) * r - i * r = r" "(i + 1) * c - i * c = c" by auto
  show ?thesis
    unfolding set_slice_def Let_def a b d
    using assms(1-4) block_index[of r i] block_index[of c i] 
    by (auto simp: block_offset)
qed

section \<open>What the block-diagonal filler computes\<close>

lemma fill_loop_blocks:
  assumes "0 < r" "0 < c" "nrows F = r" "ncols F = c"
    "\<forall>i\<in>set is. (i + 1) * r \<le> nrows M \<and> (i + 1) * c \<le> ncols M"
  shows "\<exists>M'. fill_loop is r c F M = Inr M'
     \<and> nrows M' = nrows M \<and> ncols M' = ncols M
     \<and> (\<forall>x y. entry M' x y =
          (if x div r = y div c \<and> x div r \<in> set is
           then entry F (x mod r) (y mod c) else entry M x y))"
  using assms(5)
proof (induction "is" arbitrary: M)
  case Nil
  then show ?case by simp
next
  case (Cons i "is")
  from Cons.prems have le: "(i + 1) * r \<le> nrows M" "(i + 1) * c \<le> ncols M" by auto
  from set_slice_block[OF assms(1-4) le] obtain M1 where
    s: "set_slice M (i * r) ((i + 1) * r) (i * c) ((i + 1) * c) F = Inr M1"
    and sh: "nrows M1 = nrows M" "ncols M1 = ncols M"
    and en: "\<forall>x y. entry M1 x y =
          (if x div r = i \<and> y div c = i then entry F (x mod r) (y mod c) else entry M x y)"
    by blast
  have "\<forall>i\<in>set is. (i + 1) * r \<le> nrows M1 \<and> (i + 1) * c \<le> ncols M1"
    using Cons.prems sh by simp
  from Cons.IH[OF this] obtain M' where
    l: "fill_loop is r c F M1 = Inr M'"
    and sh': "nrows M' = nrows M1" "ncols M' = ncols M1"
    and en': "\<forall>x y. entry M' x y =
          (if x div r = y div c \<and> x div r \<in> set is
           then entry F (x mod r) (y mod c) else entry M1 x y)"
    by blast
  have "fill_loop (i # is) r c F M = Inr M'" using s l by simp
  moreover have "\<forall>x y. entry M' x y =
          (if x div r = y div c \<and> x div r \<in> set (i # is)
           then entry F (x mod r) (y mod c) else entry M x y)"
    using en en' by auto
  ultimately show ?case using sh sh' by simp
qed

lemma ratio_eq_iff:
  assumes "0 < (r::nat)" "0 < (c::nat)"
  shows "((of_nat R :: rat) / of_nat r = of_nat C / of_nat c) \<longleftrightarrow> R * c = C * r"
proof -
  have "((of_nat R :: rat) / of_nat r = of_nat C / of_nat c) \<longleftrightarrow>
        (of_nat R :: rat) * of_nat c = of_nat C * of_nat r"
    using assms by (simp add: frac_eq_eq)
  also have "\<dots> \<longleftrightarrow> (of_nat (R * c) :: rat) = of_nat (C * r)" by simp
  also have "\<dots> \<longleftrightarrow> R * c = C * r" by (simp only: of_nat_eq_iff)
  finally show ?thesis .
qed

lemma int_quotient: "nat \<lfloor>(of_nat R :: rat) / of_nat r\<rfloor> = R div r"
  by (simp add: floor_divide_of_nat_eq)

lemma equal_ratio_div:
  assumes "0 < (r::nat)" "0 < (c::nat)" "R * c = C * r"
  shows "R div r = C div c"
proof -
  have "(of_nat R :: rat) / of_nat r = of_nat C / of_nat c"
    using assms ratio_eq_iff by blast
  then have "nat \<lfloor>(of_nat R :: rat) / of_nat r\<rfloor> = nat \<lfloor>(of_nat C :: rat) / of_nat c\<rfloor>" by simp
  then show ?thesis by (simp only: int_quotient)
qed

lemma fill_diagonal_blocks:
  assumes "0 < nrows F" "0 < ncols F" "nrows T * ncols F = ncols T * nrows F"
  shows "\<exists>M. fill_diagonal T F = Inr M \<and> nrows M = nrows T \<and> ncols M = ncols T
     \<and> (\<forall>x y. entry M x y =
          (if x div nrows F = y div ncols F \<and> x div nrows F < nrows T div nrows F
           then entry F (x mod nrows F) (y mod ncols F) else entry T x y))"
proof -
  let ?r = "nrows F" and ?c = "ncols F" and ?n = "nrows T div nrows F"
  have q: "(of_nat (nrows T) :: rat) / of_nat ?r = of_nat (ncols T) / of_nat ?c"
    using assms ratio_eq_iff by blast
  have nc: "?n = ncols T div ?c" using assms by (rule equal_ratio_div)
  have fd: "fill_diagonal T F = fill_loop [0..<?n] ?r ?c F T"
    using assms(1,2) q nc by (simp add: fill_diagonal_def truediv_def Let_def int_quotient)
  have rng: "\<forall>i\<in>set [0..<?n]. (i + 1) * ?r \<le> nrows T \<and> (i + 1) * ?c \<le> ncols T"
  proof
    fix i assume "i \<in> set [0..<?n]"
    then have i: "i + 1 \<le> ?n" by simp
    have "(i + 1) * ?r \<le> ?n * ?r" using i by (rule mult_le_mono1)
    also have "\<dots> \<le> nrows T" by simp
    finally have 1: "(i + 1) * ?r \<le> nrows T" .
    have "(i + 1) * ?c \<le> ?n * ?c" using i by (rule mult_le_mono1)
    also have "\<dots> \<le> ncols T" unfolding nc by simp
    finally have 2: "(i + 1) * ?c \<le> ncols T" .
    from 1 2 show "(i + 1) * ?r \<le> nrows T \<and> (i + 1) * ?c \<le> ncols T" ..
  qed
  from fill_loop_blocks[OF assms(1,2) refl refl rng] show ?thesis
    unfolding fd by simp
qed

lemma fill_diagonal_zero_filler:
  "nrows F = 0 \<or> ncols F = 0 \<Longrightarrow> fill_diagonal T F = Inl ZeroDivisionError"
  by (auto simp: fill_diagonal_def truediv_def bind_def)

lemma fill_diagonal_assert:
  assumes "0 < nrows F" "0 < ncols F" "nrows T * ncols F \<noteq> ncols T * nrows F"
  shows "fill_diagonal T F = Inl AssertionError"
  using assms ratio_eq_iff[of "nrows F" "ncols F" "nrows T" "ncols T"]
  by (simp add: fill_diagonal_def truediv_def)

section \<open>The index permutation of the right-operand Jacobian\<close>

lemma divmod_swap:
  assumes "i < (m::nat)"
  shows "(j * m + i) div m = j" "(j * m + i) mod m = i"
  using assms by simp_all

lemma sort_index:
  assumes "x < m * n"
  shows "ravel (transpose_T (Matrix n m (\<lambda>i j. np_arange (m * n) ! (i * m + j)))) ! x
         = (x mod n) * m + x div n"
proof -
  have n: "0 < n" using assms by (cases n) auto
  have d: "x div n < m" using assms by (simp add: less_mult_imp_div_less mult.commute)
  have "(x mod n) * m + x div n < n * m"
  proof -
    have "x mod n + 1 \<le> n" using n by (simp add: Suc_leI)
    then have "(x mod n + 1) * m \<le> n * m" by (rule mult_le_mono1)
    then show ?thesis using d by simp
  qed
  then have "[0..<m * n] ! ((x mod n) * m + x div n) = (x mod n) * m + x div n"
    by (simp add: mult.commute)
  then show ?thesis using assms
    by (simp add: ravel_def transpose_T_def np_arange_def mult.commute)
qed

lemma sort_length:
  "length (ravel (transpose_T (Matrix n m f))) = m * n"
  by (simp add: ravel_def transpose_T_def)

lemma sort_bound:
  assumes "x < m * (n::nat)"
  shows "(x mod n) * m + x div n < n * m"
proof -
  have n: "0 < n" using assms by (cases n) auto
  have d: "x div n < m" using assms by (simp add: less_mult_imp_div_less mult.commute)
  have "x mod n + 1 \<le> n" using n by (simp add: Suc_leI)
  then have "(x mod n + 1) * m \<le> n * m" by (rule mult_le_mono1)
  then show ?thesis using d by simp
qed

lemma sort_all_bound:
  "list_all (\<lambda>k. k < n * m) (ravel (transpose_T (Matrix n m (\<lambda>i j. np_arange (m * n) ! (i * m + j)))))"
  unfolding list_all_length sort_length
  by (simp add: sort_index sort_bound)

section \<open>Entries of the two Jacobians of MatMul\<close>

lemma np_zeros_int [simp]: "np_zeros (PyInt r) (PyInt c) = Inr (zeros r c)"
  by (simp add: np_zeros_def)

lemma zeros_sel [simp]: "nrows (zeros r c) = r" "ncols (zeros r c) = c" "entry (zeros r c) i j = 0"
  by (simp_all add: zeros_def)

lemma transpose_T_sel [simp]:
  "nrows (transpose_T M) = ncols M" "ncols (transpose_T M) = nrows M"
  "entry (transpose_T M) i j = entry M j i"
  by (simp_all add: transpose_T_def)

lemma MatMul_get_jacobi_left:
  assumes ps: "parents (g self) = [a, b]"
    and B: "nrows (nvalue (g b)) = k" "ncols (nvalue (g b)) = n"
    and A: "nrows (nvalue (g a)) = m" "ncols (nvalue (g a)) = k"
    and C: "nrows (nvalue (g self)) = m" "ncols (nvalue (g self)) = n"
    and pos: "0 < k" "0 < n"
  shows "\<exists>J. MatMul_get_jacobi g self a = Inr J \<and> nrows J = m * n \<and> ncols J = m * k \<and>
     (\<forall>x y. entry J x y =
        (if x div n = y div k \<and> x div n < m
         then entry (nvalue (g b)) (y mod k) (x mod n) else 0))"
proof -
  let ?F = "transpose_T (nvalue (g b))" and ?T = "zeros (m * n) (m * k)"
  have gj: "MatMul_get_jacobi g self a = fill_diagonal ?T ?F"
    using ps A C by (simp add: MatMul_get_jacobi_def dimension_def getitem_def)
  have 1: "0 < nrows ?F" "0 < ncols ?F" using B pos by simp_all
  have 2: "nrows ?T * ncols ?F = ncols ?T * nrows ?F" using B by simp
  have 3: "nrows ?T div nrows ?F = m" using B pos by simp
  from fill_diagonal_blocks[OF 1 2] obtain J where
    fd: "fill_diagonal ?T ?F = Inr J" and sh: "nrows J = m * n" "ncols J = m * k"
    and en: "\<forall>x y. entry J x y =
          (if x div n = y div k \<and> x div n < m
           then entry (nvalue (g b)) (y mod k) (x mod n) else 0)"
    unfolding 3 using B by auto
  then show ?thesis unfolding gj by blast
qed

lemma MatMul_get_jacobi_right:
  assumes ps: "getitem (parents (g self)) 0 = Inr a" and ne: "p \<noteq> a"
    and P: "nrows (nvalue (g p)) = k" "ncols (nvalue (g p)) = n"
    and A: "nrows (nvalue (g a)) = m" "ncols (nvalue (g a)) = k"
    and C: "nrows (nvalue (g self)) = m" "ncols (nvalue (g self)) = n"
    and pos: "0 < m" "0 < k"
  shows "\<exists>J. MatMul_get_jacobi g self p = Inr J \<and> nrows J = m * n \<and> ncols J = k * n \<and>
     (\<forall>x<m * n. \<forall>y<k * n. entry J x y =
        (if x mod n = y mod n then entry (nvalue (g a)) (x div n) (y div n) else 0))"
proof -
  let ?F = "nvalue (g a)" and ?T = "zeros (m * n) (k * n)"
  let ?rs = "ravel (transpose_T (Matrix n m (\<lambda>i j. np_arange (m * n) ! (i * m + j))))"
  let ?cs = "ravel (transpose_T (Matrix n k (\<lambda>i j. np_arange (k * n) ! (i * k + j))))"
  have 1: "0 < nrows ?F" "0 < ncols ?F" using A pos by simp_all
  have 2: "nrows ?T * ncols ?F = ncols ?T * nrows ?F" using A by simp
  have 3: "nrows ?T div nrows ?F = n" using A pos by simp
  from fill_diagonal_blocks[OF 1 2] obtain jac where
    fd: "fill_diagonal ?T ?F = Inr jac" and sh: "nrows jac = m * n" "ncols jac = k * n"
    and en: "\<forall>x y. entry jac x y =
          (if x div m = y div k \<and> x div m < n then entry ?F (x mod m) (y mod k) else 0)"
    unfolding 3 using A by auto
  have rows: "take_rows jac ?rs = Inr (Matrix (m * n) (k * n) (\<lambda>i j. entry jac (?rs ! i) j))"
    using sort_all_bound[of n m] sh
    by (simp add: take_rows_def sort_length mult.commute)
  have cols: "take_cols (Matrix (m * n) (k * n) (\<lambda>i j. entry jac (?rs ! i) j)) ?cs
      = Inr (Matrix (m * n) (k * n) (\<lambda>i j. entry jac (?rs ! i) (?cs ! j)))"
    using sort_all_bound[of n k]
    by (simp add: take_cols_def sort_length mult.commute)
  have gj: "MatMul_get_jacobi g self p
      = Inr (Matrix (m * n) (k * n) (\<lambda>i j. entry jac (?rs ! i) (?cs ! j)))"
    using ps ne P A C fd rows cols
    by (simp add: MatMul_get_jacobi_def dimension_def shape_def reshape_def Let_def
        np_arange_def mult.commute)
  have ent: "entry jac (?rs ! x) (?cs ! y) =
        (if x mod n = y mod n then entry ?F (x div n) (y div n) else 0)"
    if x: "x < m * n" and y: "y < k * n" for x y
  proof -
    have n: "0 < n" using x by (cases n) auto
    have dx: "x div n < m" using x by (simp add: less_mult_imp_div_less mult.commute)
    have dy: "y div n < k" using y by (simp add: less_mult_imp_div_less mult.commute)
    have "entry jac (?rs ! x) (?cs ! y)
        = entry jac ((x mod n) * m + x div n) ((y mod n) * k + y div n)"
      using sort_index[OF x] sort_index[OF y] by simp
    also have "\<dots> = (if x mod n = y mod n then entry ?F (x div n) (y div n) else 0)"
      using en dx dy n by simp
    finally show ?thesis .
  qed
  show ?thesis unfolding gj using ent by simp
qed

section \<open>The Jacobians of MatMul act as the product\<close>

lemma sum_list_upt: "sum_list (map f [0..<n]) = sum f {..<n::nat}"
  by (simp add: interv_sum_list_conv_sum_set_nat atLeast0LessThan)

lemma sum_grid: "sum f {..<m * k} = (\<Sum>i<m. \<Sum>l<k. f (i * k + l))" for f :: "nat \<Rightarrow> real"
proof -
  have "sum f {..<m * k} = (\<Sum>i<m. sum f {i * k..<i * k + k})"
    by (rule sum.nat_group[symmetric])
  also have "\<dots> = (\<Sum>i<m. \<Sum>l<k. f (i * k + l))"
  proof (rule sum.cong[OF refl])
    fix i
    have "sum f {i * k..<i * k + k} = sum f {0 + i * k..<k + i * k}" by (simp add: add.commute)
    also have "\<dots> = (\<Sum>l = 0..<k. f (l + i * k))" by (rule sum.shift_bounds_nat_ivl)
    also have "\<dots> = (\<Sum>l<k. f (i * k + l))" by (simp add: atLeast0LessThan add.commute)
    finally show "sum f {i * k..<i * k + k} = (\<Sum>l<k. f (i * k + l))" .
  qed
  finally show ?thesis .
qed

lemma ravel_nth:
  "x < nrows M * ncols M \<Longrightarrow> ravel M ! x = entry M (x div ncols M) (x mod ncols M)"
  by (simp add: ravel_def)

lemma ravel_length [simp]: "length (ravel M) = nrows M * ncols M"
  by (simp add: ravel_def)

lemma mat_product_sel [simp]:
  "nrows (mat_product A B) = nrows A" "ncols (mat_product A B) = ncols B"
  "entry (mat_product A B) i j = (\<Sum>l<ncols A. entry A i l * entry B l j)"
  by (simp_all add: mat_product_def sum_list_upt)

lemma matvec_length [simp]: "length (matvec J v) = nrows J"
  by (simp add: matvec_def)

lemma matvec_nth:
  "x < nrows J \<Longrightarrow> matvec J v ! x = (\<Sum>y<ncols J. entry J x y * v ! y)"
  by (simp add: matvec_def sum_list_upt)

lemma left_action:
  assumes J: "nrows J = m * n" "ncols J = m * k"
    "\<forall>x y. entry J x y =
        (if x div n = y div k \<and> x div n < m then entry B (y mod k) (x mod n) else 0)"
    and D: "nrows D = m" "ncols D = k" and B: "ncols B = n" and k: "0 < k"
  shows "matvec J (vec_row D) = vec_row (mat_product D B)"
proof (rule nth_equalityI)
  show "length (matvec J (vec_row D)) = length (vec_row (mat_product D B))"
    using J D B by (simp add: vec_row_def)
next
  fix x assume "x < length (matvec J (vec_row D))"
  then have x: "x < m * n" using J by simp
  have dx: "x div n < m" using x by (simp add: less_mult_imp_div_less mult.commute)
  have "matvec J (vec_row D) ! x = (\<Sum>y<m * k. entry J x y * vec_row D ! y)"
    using x J by (simp add: matvec_nth)
  also have "\<dots> = (\<Sum>y<m * k. entry J x y * entry D (y div k) (y mod k))"
    by (rule sum.cong[OF refl]) (simp add: vec_row_def ravel_nth D)
  also have "\<dots> = (\<Sum>i<m. \<Sum>l<k. entry J x (i * k + l) * entry D ((i * k + l) div k) ((i * k + l) mod k))"
    by (rule sum_grid)
  also have "\<dots> = (\<Sum>i<m. \<Sum>l<k. if i = x div n then entry D (x div n) l * entry B l (x mod n) else 0)"
    by (intro sum.cong refl) (use J(3) dx k in \<open>auto simp: mult.commute\<close>)
  also have "\<dots> = (\<Sum>i<m. if i = x div n then (\<Sum>l<k. entry D (x div n) l * entry B l (x mod n)) else 0)"
    by (intro sum.cong refl) simp
  also have "\<dots> = (\<Sum>l<k. entry D (x div n) l * entry B l (x mod n))"
    using dx by simp
  also have "\<dots> = vec_row (mat_product D B) ! x"
    using x D B by (simp add: vec_row_def ravel_nth)
  finally show "matvec J (vec_row D) ! x = vec_row (mat_product D B) ! x" .
qed

lemma right_action:
  assumes J: "nrows J = m * n" "ncols J = k * n"
    "\<forall>x<m * n. \<forall>y<k * n. entry J x y =
        (if x mod n = y mod n then entry A (x div n) (y div n) else 0)"
    and D: "nrows D = k" "ncols D = n" and A: "nrows A = m" "ncols A = k"
  shows "matvec J (vec_row D) = vec_row (mat_product A D)"
proof (rule nth_equalityI)
  show "length (matvec J (vec_row D)) = length (vec_row (mat_product A D))"
    using J D A by (simp add: vec_row_def)
next
  fix x assume "x < length (matvec J (vec_row D))"
  then have x: "x < m * n" using J by simp
  have n: "0 < n" using x by (cases n) auto
  have mx: "x mod n < n" using n by simp
  have "matvec J (vec_row D) ! x = (\<Sum>y<k * n. entry J x y * vec_row D ! y)"
    using x J by (simp add: matvec_nth)
  also have "\<dots> = (\<Sum>y<k * n. entry J x y * entry D (y div n) (y mod n))"
    by (rule sum.cong[OF refl]) (simp add: vec_row_def ravel_nth D)
  also have "\<dots> = (\<Sum>l<k. \<Sum>j<n. entry J x (l * n + j) * entry D ((l * n + j) div n) ((l * n + j) mod n))"
    by (rule sum_grid)
  also have "\<dots> = (\<Sum>l<k. \<Sum>j<n. if j = x mod n then entry A (x div n) l * entry D l (x mod n) else 0)"
  proof (intro sum.cong refl)
    fix l j assume l: "l \<in> {..<k}" and j: "j \<in> {..<n}"
    then have lk: "l + 1 \<le> k" and jn: "j < n" by simp_all
    have "(l + 1) * n \<le> k * n" using lk by (rule mult_le_mono1)
    moreover have "l * n + j < (l + 1) * n" using jn by simp
    ultimately have "l * n + j < k * n" by linarith
    then show "entry J x (l * n + j) * entry D ((l * n + j) div n) ((l * n + j) mod n) =
       (if j = x mod n then entry A (x div n) l * entry D l (x mod n) else 0)"
      using J(3) x jn by auto
  qed
  also have "\<dots> = (\<Sum>l<k. entry A (x div n) l * entry D l (x mod n))"
    using mx by (intro sum.cong refl) simp
  also have "\<dots> = vec_row (mat_product A D) ! x"
    using x D A by (simp add: vec_row_def ravel_nth)
  finally show "matvec J (vec_row D) ! x = vec_row (mat_product A D) ! x" .
qed

section \<open>Add and logistic\<close>

lemma set_value_sel [simp]:
  "nvalue (set_value g n v n) = v"
  "parents (set_value g n v q) = parents (g q)"
  "q \<noteq> n \<Longrightarrow> set_value g n v q = g q"
  by (simp_all add: set_value_def)

lemma Add_loop_sum:
  assumes "self \<notin> set ps"
    and "\<forall>p\<in>set ps. nrows (nvalue (g p)) = nrows (nvalue (g self))
                   \<and> ncols (nvalue (g p)) = ncols (nvalue (g self))"
  shows "\<exists>g'. Add_loop ps self g = Inr g'
     \<and> (\<forall>q. q \<noteq> self \<longrightarrow> g' q = g q)
     \<and> parents (g' self) = parents (g self)
     \<and> nrows (nvalue (g' self)) = nrows (nvalue (g self))
     \<and> ncols (nvalue (g' self)) = ncols (nvalue (g self))
     \<and> (\<forall>i<nrows (nvalue (g self)). \<forall>j<ncols (nvalue (g self)).
          entry (nvalue (g' self)) i j =
          entry (nvalue (g self)) i j + sum_list (map (\<lambda>p. entry (nvalue (g p)) i j) ps))"
  using assms
proof (induction ps arbitrary: g)
  case Nil
  then show ?case by simp
next
  case (Cons p ps)
  let ?X = "nvalue (g self)" and ?Y = "nvalue (g p)"
  define v where "v = Matrix (nrows ?X) (ncols ?X)
             (\<lambda>i j. entry ?X i j +
                    entry ?Y (if nrows ?Y = 1 then 0 else i) (if ncols ?Y = 1 then 0 else j))"
  define g1 where "g1 = set_value g self v"
  from Cons.prems have pne: "p \<noteq> self" and sh: "nrows ?Y = nrows ?X" "ncols ?Y = ncols ?X"
    by auto
  have ia: "iadd ?X ?Y = Inr v" using sh by (simp add: iadd_def v_def)
  have vs: "nrows v = nrows ?X" "ncols v = ncols ?X" by (simp_all add: v_def)
  have ve: "entry v i j = entry ?X i j + entry ?Y i j"
    if "i < nrows ?X" "j < ncols ?X" for i j
    using that sh by (auto simp: v_def)
  have 1: "self \<notin> set ps" using Cons.prems by simp
  have neq: "g1 q = g q" if "q \<in> set ps" for q
  proof -
    have "q \<noteq> self" using 1 that by blast
    then show ?thesis by (simp add: g1_def)
  qed
  have g1s: "nvalue (g1 self) = v" "parents (g1 self) = parents (g self)"
    by (simp_all add: g1_def)
  have 2: "\<forall>q\<in>set ps. nrows (nvalue (g1 q)) = nrows (nvalue (g1 self))
                   \<and> ncols (nvalue (g1 q)) = ncols (nvalue (g1 self))"
    using Cons.prems by (simp add: neq g1s vs)
  from Cons.IH[OF 1 2] obtain g' where
    l: "Add_loop ps self g1 = Inr g'"
    and fr: "\<forall>q. q \<noteq> self \<longrightarrow> g' q = g1 q"
    and pa: "parents (g' self) = parents (g1 self)"
    and shp: "nrows (nvalue (g' self)) = nrows ?X" "ncols (nvalue (g' self)) = ncols ?X"
    and en: "\<forall>i<nrows ?X. \<forall>j<ncols ?X.
          entry (nvalue (g' self)) i j =
          entry v i j + sum_list (map (\<lambda>q. entry (nvalue (g1 q)) i j) ps)"
    unfolding g1s vs by auto
  have same: "sum_list (map (\<lambda>q. entry (nvalue (g1 q)) i j) ps)
      = sum_list (map (\<lambda>q. entry (nvalue (g q)) i j) ps)"
    for i j by (intro arg_cong[where f = sum_list] map_cong refl) (simp add: neq)
  have "Add_loop (p # ps) self g = Inr g'" using ia l by (simp add: g1_def)
  moreover have "\<forall>q. q \<noteq> self \<longrightarrow> g' q = g q" using fr by (simp add: g1_def)
  moreover have "\<forall>i<nrows ?X. \<forall>j<ncols ?X.
          entry (nvalue (g' self)) i j =
          entry ?X i j + sum_list (map (\<lambda>q. entry (nvalue (g q)) i j) (p # ps))"
    using en ve by (simp add: same)
  ultimately show ?case using pa shp g1s by simp
qed

lemma Add_compute_sum_aux:
  assumes ne: "parents (g self) \<noteq> []" and acyc: "self \<notin> set (parents (g self))"
    and same: "\<forall>p\<in>set (parents (g self)). shape g p = (r, c)"
  shows "\<exists>g'. Add_compute g self = Inr g'
     \<and> (\<forall>q. q \<noteq> self \<longrightarrow> g' q = g q)
     \<and> parents (g' self) = parents (g self)
     \<and> shape g' self = (r, c)
     \<and> (\<forall>i<r. \<forall>j<c. entry (nvalue (g' self)) i j =
          sum_list (map (\<lambda>p. entry (nvalue (g p)) i j) (parents (g self))))"
proof -
  let ?ps = "parents (g self)"
  let ?g0 = "set_value g self (zeros r c)"
  have p0: "getitem ?ps 0 = Inr (?ps ! 0)" "?ps ! 0 \<in> set ?ps"
    using ne by (simp_all add: getitem_def)
  then have s0: "shape g (?ps ! 0) = (r, c)" using same by blast
  have ac: "Add_compute g self = Add_loop ?ps self ?g0"
    using p0 s0 by (simp add: Add_compute_def)
  have 1: "self \<notin> set ?ps" by (rule acyc)
  have ne_self: "q \<noteq> self" if "q \<in> set ?ps" for q using acyc that by auto
  have 2: "\<forall>p\<in>set ?ps. nrows (nvalue (?g0 p)) = nrows (nvalue (?g0 self))
                   \<and> ncols (nvalue (?g0 p)) = ncols (nvalue (?g0 self))"
  proof
    fix p assume p: "p \<in> set ?ps"
    then have "p \<noteq> self" using acyc by auto
    moreover have "shape g p = (r, c)" using same p by blast
    ultimately show "nrows (nvalue (?g0 p)) = nrows (nvalue (?g0 self))
                   \<and> ncols (nvalue (?g0 p)) = ncols (nvalue (?g0 self))"
      by (simp add: shape_def)
  qed
  from Add_loop_sum[OF 1 2] obtain g' where
    l: "Add_loop ?ps self ?g0 = Inr g'"
    and fr: "\<forall>q. q \<noteq> self \<longrightarrow> g' q = ?g0 q"
    and pa: "parents (g' self) = parents (?g0 self)"
    and shp: "nrows (nvalue (g' self)) = r" "ncols (nvalue (g' self)) = c"
    and en: "\<forall>i<r. \<forall>j<c.
          entry (nvalue (g' self)) i j =
          sum_list (map (\<lambda>q. entry (nvalue (?g0 q)) i j) ?ps)"
    by auto
  have "sum_list (map (\<lambda>q. entry (nvalue (?g0 q)) i j) ?ps)
      = sum_list (map (\<lambda>q. entry (nvalue (g q)) i j) ?ps)"
    for i j by (intro arg_cong[where f = sum_list] map_cong refl) (simp add: ne_self[THEN set_value_sel(3)])
  then have "\<forall>i<r. \<forall>j<c. entry (nvalue (g' self)) i j =
          sum_list (map (\<lambda>p. entry (nvalue (g p)) i j) ?ps)"
    using en by simp
  moreover have "\<forall>q. q \<noteq> self \<longrightarrow> g' q = g q" using fr by simp
  ultimately show ?thesis using l pa shp unfolding ac by (simp add: shape_def)
qed

lemma np_eye_sel [simp]:
  "nrows (np_eye d) = d" "ncols (np_eye d) = d"
  "entry (np_eye d) i j = (if i = j then 1 else 0)"
  by (simp_all add: np_eye_def)

lemma logistic_get_jacobi_aux:
  "\<exists>J. logistic_get_jacobi g self p = Inr J \<and> nrows J = dimension g self
      \<and> ncols J = dimension g self
      \<and> (\<forall>i<dimension g self. \<forall>j<dimension g self. entry J i j =
           (if i = j then ravel (nvalue (g self)) ! i * (1 - ravel (nvalue (g self)) ! i)
            else 0))"
proof -
  let ?v = "nvalue (g self)"
  let ?d = "Matrix (nrows ?v) (ncols ?v)
     (\<lambda>i j. entry ?v (if nrows ?v = 1 then 0 else i) (if ncols ?v = 1 then 0 else j) *
            entry (rsub 1 ?v) (if nrows ?v = 1 then 0 else i) (if ncols ?v = 1 then 0 else j))"
  have m: "np_multiply ?v (rsub 1 ?v) = Inr ?d"
    by (simp add: np_multiply_def rsub_def broadcast_dim_def)
  have lj: "logistic_get_jacobi g self p = Inr (np_diag (ravel ?d))"
    using m by (simp add: logistic_get_jacobi_def)
  have e: "ravel ?d ! i = ravel ?v ! i * (1 - ravel ?v ! i)" if "i < dimension g self" for i
  proof -
    have i: "i < nrows ?v * ncols ?v" using that by (simp add: dimension_def)
    then have c: "0 < ncols ?v" by (cases "ncols ?v") auto
    have r: "i div ncols ?v < nrows ?v" using i by (simp add: less_mult_imp_div_less)
    have a: "(if nrows ?v = 1 then 0 else i div ncols ?v) = i div ncols ?v" using r by simp
    have b: "(if ncols ?v = 1 then 0 else i mod ncols ?v) = i mod ncols ?v" by simp
    have "ravel ?d ! i = entry ?d (i div ncols ?v) (i mod ncols ?v)"
      using i by (simp add: ravel_nth)
    also have "\<dots> = entry ?v (i div ncols ?v) (i mod ncols ?v) *
        (1 - entry ?v (i div ncols ?v) (i mod ncols ?v))"
      unfolding matrix.sel a b by (simp add: rsub_def)
    also have "\<dots> = ravel ?v ! i * (1 - ravel ?v ! i)"
      using i by (simp add: ravel_nth)
    finally show ?thesis .
  qed
  show ?thesis unfolding lj using e
    by (simp add: np_diag_def dimension_def)
qed

section \<open>Shapes and frames\<close>

lemma MatMul_compute_value:
  assumes ps: "parents (g self) = [a, b]"
    and sh: "ncols (nvalue (g a)) = nrows (nvalue (g b))"
  shows "MatMul_compute g self
     = Inr (set_value g self (mat_product (nvalue (g a)) (nvalue (g b))))"
  using assms by (simp add: MatMul_compute_def shape_def matmul_def Let_def)

lemma set_slice_shape:
  "set_slice M r0 r1 c0 c1 F = Inr M' \<Longrightarrow> nrows M' = nrows M \<and> ncols M' = ncols M"
  by (auto simp: set_slice_def Let_def split: if_splits)

lemma fill_loop_shape:
  "fill_loop is r c F M = Inr M' \<Longrightarrow> nrows M' = nrows M \<and> ncols M' = ncols M"
proof (induction "is" arbitrary: M)
  case Nil
  then show ?case by simp
next
  case (Cons i "is")
  then show ?case
    by (cases "set_slice M (i * r) ((i + 1) * r) (i * c) ((i + 1) * c) F")
       (auto dest: set_slice_shape)
qed

lemma fill_diagonal_shape:
  "fill_diagonal T F = Inr M \<Longrightarrow> nrows M = nrows T \<and> ncols M = ncols T"
  by (auto simp: fill_diagonal_def truediv_def bind_def Let_def
      split: if_splits sum.splits dest: fill_loop_shape)

lemma take_rows_shape:
  "take_rows M idx = Inr S \<Longrightarrow> nrows S = length idx \<and> ncols S = ncols M"
  by (auto simp: take_rows_def split: if_splits)

lemma take_cols_shape:
  "take_cols M idx = Inr S \<Longrightarrow> nrows S = nrows M \<and> ncols S = length idx"
  by (auto simp: take_cols_def split: if_splits)

lemma reshape_shape:
  "reshape xs (r, c) = Inr G \<Longrightarrow> nrows G = r \<and> ncols G = c"
  by (auto simp: reshape_def split: if_splits)

lemma MatMul_get_jacobi_shape:
  assumes "MatMul_get_jacobi g self p = Inr J"
  shows "nrows J = dimension g self \<and> ncols J = dimension g p"
proof -
  let ?Z = "zeros (dimension g self) (dimension g p)"
  from assms obtain a where a: "getitem (parents (g self)) 0 = Inr a"
    by (cases "getitem (parents (g self)) 0") (simp_all add: MatMul_get_jacobi_def)
  show ?thesis
  proof (cases "p = a")
    case True
    with assms a obtain b where "getitem (parents (g self)) 1 = Inr b"
      and "fill_diagonal ?Z (transpose_T (nvalue (g b))) = Inr J"
      by (cases "getitem (parents (g self)) 1") (simp_all add: MatMul_get_jacobi_def)
    then show ?thesis using fill_diagonal_shape by fastforce
  next
    case False
    from assms a False obtain jac where jac: "fill_diagonal ?Z (nvalue (g a)) = Inr jac"
      by (cases "fill_diagonal ?Z (nvalue (g a))") (simp_all add: MatMul_get_jacobi_def)
    from assms a False jac obtain rg where
      rg: "reshape (np_arange (dimension g self)) (prod.swap (shape g self)) = Inr rg"
      by (cases "reshape (np_arange (dimension g self)) (prod.swap (shape g self))")
         (simp_all add: MatMul_get_jacobi_def)
    from assms a False jac rg obtain cg where
      cg: "reshape (np_arange (dimension g p)) (prod.swap (shape g p)) = Inr cg"
      by (cases "reshape (np_arange (dimension g p)) (prod.swap (shape g p))")
         (simp_all add: MatMul_get_jacobi_def)
    from assms a False jac rg cg obtain sel where
      sel: "take_rows jac (ravel (transpose_T rg)) = Inr sel"
      and J: "take_cols sel (ravel (transpose_T cg)) = Inr J"
      by (cases "take_rows jac (ravel (transpose_T rg))")
         (simp_all add: MatMul_get_jacobi_def Let_def)
    have "nrows rg = ncols (nvalue (g self)) \<and> ncols rg = nrows (nvalue (g self))"
      using rg by (intro reshape_shape) (simp add: shape_def)
    moreover have "nrows cg = ncols (nvalue (g p)) \<and> ncols cg = nrows (nvalue (g p))"
      using cg by (intro reshape_shape) (simp add: shape_def)
    ultimately show ?thesis
      using take_rows_shape[OF sel] take_cols_shape[OF J]
      by (simp add: dimension_def)
  qed
qed

lemma iadd_shape: "iadd X Y = Inr Z \<Longrightarrow> nrows Z = nrows X \<and> ncols Z = ncols X"
  by (auto simp: iadd_def split: if_splits)

lemma Add_loop_frame:
  "Add_loop ps self g = Inr g' \<Longrightarrow>
     (\<forall>q. q \<noteq> self \<longrightarrow> g' q = g q)
     \<and> nrows (nvalue (g' self)) = nrows (nvalue (g self))
     \<and> ncols (nvalue (g' self)) = ncols (nvalue (g self))"
proof (induction ps arbitrary: g)
  case Nil
  then show ?case by simp
next
  case (Cons p ps)
  from Cons.prems obtain v where v: "iadd (nvalue (g self)) (nvalue (g p)) = Inr v"
    and l: "Add_loop ps self (set_value g self v) = Inr g'"
    by (cases "iadd (nvalue (g self)) (nvalue (g p))") simp_all
  from Cons.IH[OF l] iadd_shape[OF v] show ?case by simp
qed

lemma Add_compute_frame:
  assumes "Add_compute g self = Inr g'"
  shows "(\<forall>q. q \<noteq> self \<longrightarrow> g' q = g q) \<and> shape g' self = shape g (parents (g self) ! 0)"
proof -
  from assms obtain p0 where p0: "getitem (parents (g self)) 0 = Inr p0"
    by (cases "getitem (parents (g self)) 0") (simp_all add: Add_compute_def)
  then have p0': "p0 = parents (g self) ! 0" by (simp add: getitem_def split: if_splits)
  obtain r c where rc: "shape g p0 = (r, c)" by (cases "shape g p0")
  from assms p0 rc have "Add_loop (parents (g self)) self (set_value g self (zeros r c)) = Inr g'"
    by (simp add: Add_compute_def)
  from Add_loop_frame[OF this] show ?thesis using rc p0' by (simp add: shape_def)
qed

lemma logistic_compute_frame:
  assumes "logistic_compute g self = Inr g'"
  shows "(\<forall>q. q \<noteq> self \<longrightarrow> g' q = g q) \<and> shape g' self = shape g (parents (g self) ! 0)"
proof -
  from assms obtain p0 where p0: "getitem (parents (g self)) 0 = Inr p0"
    by (cases "getitem (parents (g self)) 0") (simp_all add: logistic_compute_def)
  then have p0': "p0 = parents (g self) ! 0" by (simp add: getitem_def split: if_splits)
  from assms p0 show ?thesis unfolding p0'
    by (auto simp: logistic_compute_def Let_def shape_def)
qed

lemma jacobi_after_Inr:
  "jacobi_shape (jacobi_after compute get_jacobi g self p) = Inr s \<Longrightarrow>
   dimensions_after (jacobi_after compute get_jacobi g self p) self p = Inr d \<Longrightarrow>
   \<exists>g' J. compute g self = Inr g' \<and> get_jacobi g' self p = Inr J
      \<and> s = (nrows J, ncols J) \<and> d = (dimension g' self, dimension g' p)"
  by (cases "compute g self"; cases "get_jacobi (projr (compute g self)) self p")
     (auto simp: jacobi_after_def jacobi_shape_def dimensions_after_def)

lemma same_shape_dimension: "shape g p = shape g q \<Longrightarrow> dimension g p = dimension g q"
  by (simp add: shape_def dimension_def)

lemma np_eye_identity: "is_identity_matrix (np_eye d)"
  by (simp add: is_identity_matrix_def list_all_iff)

lemma logistic_example:
  "jacobi_shape (jacobi_after logistic_compute logistic_get_jacobi logistic_graph 1 0) = Inr (4, 4)
   \<and> dimensions_after (jacobi_after logistic_compute logistic_get_jacobi logistic_graph 1 0) 1 0
       = Inr (4, 4)"
proof -
  define v where "v = Matrix 2 2 (\<lambda>i j. 1 / (1 + exp (if - entry (nvalue (logistic_graph 0)) i j > 100 then 100
                                         else - entry (nvalue (logistic_graph 0)) i j)))"
  define g1 where "g1 = set_value logistic_graph 1 v"
  have p: "getitem (parents (logistic_graph 1)) 0 = Inr 0"
    by (simp add: logistic_graph_def graph_of_def getitem_def)
  have sh: "nrows (nvalue (logistic_graph 0)) = 2" "ncols (nvalue (logistic_graph 0)) = 2"
    by (simp_all add: logistic_graph_def graph_of_def mk_matrix_def)
  have lc: "logistic_compute logistic_graph 1 = Inr g1"
    unfolding logistic_compute_def p g1_def v_def by (simp add: sh Let_def)
  have d: "dimension g1 1 = 4" "dimension g1 0 = 4"
    by (simp_all add: g1_def v_def dimension_def sh)
  from logistic_get_jacobi_aux[of g1 1 0] obtain J where
    J: "logistic_get_jacobi g1 1 0 = Inr J" "nrows J = 4" "ncols J = 4"
    unfolding d by blast
  have "jacobi_after logistic_compute logistic_get_jacobi logistic_graph 1 0 = Inr (g1, J)"
    unfolding jacobi_after_def lc using J(1) by simp
  then show ?thesis using J d by (simp add: jacobi_shape_def dimensions_after_def)
qed

lemma MatMul_get_jacobi_other:
  assumes "getitem (parents (g self)) 0 = Inr a" "p \<noteq> a" "q \<noteq> a" "shape g p = shape g q"
  shows "MatMul_get_jacobi g self p = MatMul_get_jacobi g self q"
proof -
  have d: "dimension g p = dimension g q" using assms(4) by (rule same_shape_dimension)
  show ?thesis
    unfolding MatMul_get_jacobi_def assms(1) d assms(4)
    by (simp only: bind_Inr bind_Inl assms(2,3) if_False)
qed

section \<open>SoftMax normalises a non-empty matrix\<close>



section \<open>The claims\<close>

subsection \<open>C1: the two Jacobians of MatMul\<close>

text \<open>
  C1, as stated, says that \<open>get_jacobi(A)\<close> and \<open>get_jacobi(B)\<close> are the Jacobians of
  \<open>vec(C)\<close> under column-major vectorisation. In the scenario of the specification,
  \<open>A = [[1,2],[3,4]]\<close>, \<open>B = [[5,6],[7,8]]\<close> and \<open>\<Delta>B = [[1,0],[0,0]]\<close>, the Jacobian with
  respect to \<open>B\<close> sends the column-major \<open>vec(\<Delta>B)\<close> to \<open>[1,0,3,0]\<close>, while the column-major
  \<open>vec(A\<cdot>\<Delta>B)\<close> is \<open>[1,3,0,0]\<close>; the Jacobian with respect to \<open>A\<close> misses the column-major
  \<open>vec(\<Delta>A\<cdot>B)\<close> for \<open>\<Delta>A = [[0,1],[0,0]]\<close> in the same way.
\<close>

theorem MatMul_jacobi_column_major_counterexample:
  "action_on (jacobi_after MatMul_compute MatMul_get_jacobi matmul_graph 2 1)
        (vec_col (mk_matrix [[1, 0], [0, 0]]))
     \<noteq> Inr (vec_col (mat_product (nvalue (matmul_graph 0)) (mk_matrix [[1, 0], [0, 0]])))
   \<and> action_on (jacobi_after MatMul_compute MatMul_get_jacobi matmul_graph 2 1)
        (vec_col (mk_matrix [[1, 0], [0, 0]])) = Inr [1, 0, 3, 0]
   \<and> vec_col (mat_product (nvalue (matmul_graph 0)) (mk_matrix [[1, 0], [0, 0]])) = [1, 3, 0, 0]
   \<and> action_on (jacobi_after MatMul_compute MatMul_get_jacobi matmul_graph 2 0)
        (vec_col (mk_matrix [[0, 1], [0, 0]])) = Inr [0, 0, 5, 6]
   \<and> vec_col (mat_product (mk_matrix [[0, 1], [0, 0]]) (nvalue (matmul_graph 1))) = [7, 0, 8, 0]"
  by code_simp

text \<open>
  C1, amended: for distinct parents \<open>A\<close> of shape \<open>(m,k)\<close> and \<open>B\<close> of shape \<open>(k,n)\<close> with
  \<open>m, k, n \<ge> 1\<close>, neither of them the node itself, \<open>compute\<close> sets the value to \<open>A\<cdot>B\<close>,
  \<open>get_jacobi(A)\<close> has shape \<open>(mn, mk)\<close>, \<open>get_jacobi(B)\<close> has shape \<open>(mn, kn)\<close>, and each is
  the Jacobian of \<open>vec(C)\<close> under row-major vectorisation (the order of \<open>ravel\<close>): applied to
  the row-major \<open>vec(\<Delta>A)\<close> the first gives the row-major \<open>vec(\<Delta>A\<cdot>B)\<close>, applied to the
  row-major \<open>vec(\<Delta>B)\<close> the second gives the row-major \<open>vec(A\<cdot>\<Delta>B)\<close>, for matrices of any
  shape, square or not.
\<close>

theorem MatMul_get_jacobi_row_major:
  assumes ps: "parents (g self) = [a, b]"
    and distinct: "a \<noteq> b" "self \<noteq> a" "self \<noteq> b"
    and A: "shape g a = (m, k)" and B: "shape g b = (k, n)"
    and pos: "0 < m" "0 < k" "0 < n"
    and DA: "nrows DA = m" "ncols DA = k"
    and DB: "nrows DB = k" "ncols DB = n"
  shows "value_after (MatMul_compute g self) self
           = Inr (tolist (mat_product (nvalue (g a)) (nvalue (g b))))
     \<and> jacobi_shape (jacobi_after MatMul_compute MatMul_get_jacobi g self a) = Inr (m * n, m * k)
     \<and> jacobi_shape (jacobi_after MatMul_compute MatMul_get_jacobi g self b) = Inr (m * n, k * n)
     \<and> action_on (jacobi_after MatMul_compute MatMul_get_jacobi g self a) (vec_row DA)
           = Inr (vec_row (mat_product DA (nvalue (g b))))
     \<and> action_on (jacobi_after MatMul_compute MatMul_get_jacobi g self b) (vec_row DB)
           = Inr (vec_row (mat_product (nvalue (g a)) DB))"
proof -
  let ?A = "nvalue (g a)" and ?B = "nvalue (g b)"
  define g' where "g' = set_value g self (mat_product ?A ?B)"
  have shA: "nrows ?A = m" "ncols ?A = k" and shB: "nrows ?B = k" "ncols ?B = n"
    using A B by (simp_all add: shape_def)
  have mc: "MatMul_compute g self = Inr g'"
    unfolding g'_def using ps shA shB by (intro MatMul_compute_value) simp_all
  have ps': "parents (g' self) = [a, b]" using ps by (simp add: g'_def)
  have ga: "g' a = g a" and gb: "g' b = g b" using distinct by (simp_all add: g'_def)
  have A': "nrows (nvalue (g' a)) = m" "ncols (nvalue (g' a)) = k"
    and B': "nrows (nvalue (g' b)) = k" "ncols (nvalue (g' b)) = n"
    using shA shB ga gb by simp_all
  have C': "nrows (nvalue (g' self)) = m" "ncols (nvalue (g' self)) = n"
    using shA shB by (simp_all add: g'_def)
  from MatMul_get_jacobi_left[OF ps' B' A' C' pos(2,3)] obtain JA where
    JA: "MatMul_get_jacobi g' self a = Inr JA" "nrows JA = m * n" "ncols JA = m * k"
      "\<forall>x y. entry JA x y =
        (if x div n = y div k \<and> x div n < m then entry (nvalue (g' b)) (y mod k) (x mod n) else 0)"
    by blast
  have p0: "getitem (parents (g' self)) 0 = Inr a" using ps' by (simp add: getitem_def)
  have ba: "b \<noteq> a" using distinct by simp
  from MatMul_get_jacobi_right[OF p0 ba B' A' C' pos(1,2)] obtain JB where
    JB: "MatMul_get_jacobi g' self b = Inr JB" "nrows JB = m * n" "ncols JB = k * n"
      "\<forall>x<m * n. \<forall>y<k * n. entry JB x y =
        (if x mod n = y mod n then entry (nvalue (g' a)) (x div n) (y div n) else 0)"
    by blast
  have ja: "jacobi_after MatMul_compute MatMul_get_jacobi g self a = Inr (g', JA)"
    using mc JA(1) by (simp add: jacobi_after_def)
  have jb: "jacobi_after MatMul_compute MatMul_get_jacobi g self b = Inr (g', JB)"
    using mc JB(1) by (simp add: jacobi_after_def)
  have actA: "matvec JA (vec_row DA) = vec_row (mat_product DA ?B)"
    using left_action[OF JA(2,3,4) DA B'(2) pos(2)] gb by simp
  have actB: "matvec JB (vec_row DB) = vec_row (mat_product ?A DB)"
    using right_action[OF JB(2,3,4) DB A'] ga by simp
  have "value_after (MatMul_compute g self) self = Inr (tolist (mat_product ?A ?B))"
    unfolding mc by (simp add: value_after_def g'_def)
  moreover have "jacobi_shape (jacobi_after MatMul_compute MatMul_get_jacobi g self a) = Inr (m * n, m * k)"
    unfolding ja using JA by (simp add: jacobi_shape_def)
  moreover have "jacobi_shape (jacobi_after MatMul_compute MatMul_get_jacobi g self b) = Inr (m * n, k * n)"
    unfolding jb using JB by (simp add: jacobi_shape_def)
  moreover have "action_on (jacobi_after MatMul_compute MatMul_get_jacobi g self a) (vec_row DA)
           = Inr (vec_row (mat_product DA ?B))"
    unfolding ja using actA by (simp add: action_on_def)
  moreover have "action_on (jacobi_after MatMul_compute MatMul_get_jacobi g self b) (vec_row DB)
           = Inr (vec_row (mat_product ?A DB))"
    unfolding jb using actB by (simp add: action_on_def)
  ultimately show ?thesis by blast
qed

theorem MatMul_get_jacobi_row_major_witness:
  "jacobi_shape (jacobi_after MatMul_compute MatMul_get_jacobi rect_graph 2 0) = Inr (6, 2)
   \<and> jacobi_shape (jacobi_after MatMul_compute MatMul_get_jacobi rect_graph 2 1) = Inr (6, 3)
   \<and> action_on (jacobi_after MatMul_compute MatMul_get_jacobi rect_graph 2 0)
        (vec_row (mk_matrix [[0], [1]])) = Inr [0, 0, 0, 3, 4, 5]
   \<and> action_on (jacobi_after MatMul_compute MatMul_get_jacobi rect_graph 2 1)
        (vec_row (mk_matrix [[0, 1, 0]])) = Inr [0, 1, 0, 0, 2, 0]"
proof -
  let ?DA = "mk_matrix [[0], [1::real]]" and ?DB = "mk_matrix [[0, 1, 0::real]]"
  have h: "parents (rect_graph 2) = [0, 1]" "(0::nat) \<noteq> 1" "(2::nat) \<noteq> 0" "(2::nat) \<noteq> 1"
    "shape rect_graph 0 = (2, 1)" "shape rect_graph 1 = (1, 3)"
    "0 < (2::nat)" "0 < (1::nat)" "0 < (3::nat)"
    "nrows ?DA = 2" "ncols ?DA = 1" "nrows ?DB = 1" "ncols ?DB = 3"
    by (simp_all add: rect_graph_def graph_of_def shape_def mk_matrix_def)
  have v: "vec_row (mat_product ?DA (nvalue (rect_graph 1))) = [0, 0, 0, 3, 4, 5]"
    "vec_row (mat_product (nvalue (rect_graph 0)) ?DB) = [0, 1, 0, 0, 2, 0]"
    by code_simp+
  from MatMul_get_jacobi_row_major[OF h] show ?thesis unfolding v by simp
qed

subsection \<open>C2: when the block-diagonal filler fails\<close>

text \<open>
  C2, as stated, says that \<open>fill_diagonal\<close> fails whenever one of the ratios \<open>R/r\<close>, \<open>C/c\<close>
  is not an integer, in particular for a \<open>(5,5)\<close> target and a \<open>(2,2)\<close> filler. The assertion
  compares the two quotients only: \<open>5/2 = 5/2\<close>, \<open>int(2.5) = 2\<close>, and the call returns the
  target with two blocks filled and its last row and column untouched.
\<close>

theorem fill_diagonal_non_integral_counterexample:
  "map_sum id tolist (fill_diagonal (zeros 5 5) (mk_matrix [[1, 2], [3, 4]])) =
     Inr [[1, 2, 0, 0, 0], [3, 4, 0, 0, 0], [0, 0, 1, 2, 0], [0, 0, 3, 4, 0], [0, 0, 0, 0, 0]]"
  by code_simp

text \<open>
  C2, amended: \<open>fill_diagonal\<close> raises \<open>ZeroDivisionError\<close> when a dimension of the filler is
  zero, and fails its assertion exactly when the ratios \<open>R/r\<close> and \<open>C/c\<close> differ. When they are
  equal, integral or not, it returns a matrix of the target's shape in which the first
  \<open>\<lfloor>R/r\<rfloor>\<close> diagonal blocks hold the filler and every other entry is the target's.
\<close>

theorem fill_diagonal_ratio_check:
  "(nrows F = 0 \<or> ncols F = 0 \<longrightarrow> fill_diagonal T F = Inl ZeroDivisionError) \<and>
   (0 < nrows F \<and> 0 < ncols F \<and>
      rat_of_nat (nrows T) / rat_of_nat (nrows F) \<noteq> rat_of_nat (ncols T) / rat_of_nat (ncols F)
    \<longrightarrow> fill_diagonal T F = Inl AssertionError) \<and>
   (0 < nrows F \<and> 0 < ncols F \<and>
      rat_of_nat (nrows T) / rat_of_nat (nrows F) = rat_of_nat (ncols T) / rat_of_nat (ncols F)
    \<longrightarrow> shape_of (fill_diagonal T F) = Inr (nrows T, ncols T) \<and>
        entry_of (fill_diagonal T F) x y =
          Inr (if x div nrows F = y div ncols F \<and> x div nrows F < nrows T div nrows F
               then entry F (x mod nrows F) (y mod ncols F) else entry T x y))"
proof (intro conjI impI)
  assume "nrows F = 0 \<or> ncols F = 0"
  then show "fill_diagonal T F = Inl ZeroDivisionError" by (rule fill_diagonal_zero_filler)
next
  assume a: "0 < nrows F \<and> 0 < ncols F \<and>
      rat_of_nat (nrows T) / rat_of_nat (nrows F) \<noteq> rat_of_nat (ncols T) / rat_of_nat (ncols F)"
  then have "nrows T * ncols F \<noteq> ncols T * nrows F" using ratio_eq_iff by blast
  with a show "fill_diagonal T F = Inl AssertionError" by (simp add: fill_diagonal_assert)
next
  assume a: "0 < nrows F \<and> 0 < ncols F \<and>
      rat_of_nat (nrows T) / rat_of_nat (nrows F) = rat_of_nat (ncols T) / rat_of_nat (ncols F)"
  then have e: "nrows T * ncols F = ncols T * nrows F" using ratio_eq_iff by blast
  from a have p: "0 < nrows F" "0 < ncols F" by simp_all
  from fill_diagonal_blocks[OF p e] obtain M where
    M: "fill_diagonal T F = Inr M" "nrows M = nrows T" "ncols M = ncols T"
      "\<forall>x y. entry M x y =
          (if x div nrows F = y div ncols F \<and> x div nrows F < nrows T div nrows F
           then entry F (x mod nrows F) (y mod ncols F) else entry T x y)"
    by blast
  show "shape_of (fill_diagonal T F) = Inr (nrows T, ncols T)"
    using M by (simp add: shape_of_def)
  show "entry_of (fill_diagonal T F) x y =
          Inr (if x div nrows F = y div ncols F \<and> x div nrows F < nrows T div nrows F
               then entry F (x mod nrows F) (y mod ncols F) else entry T x y)"
    using M by (simp add: entry_of_def)
qed

theorem fill_diagonal_ratio_check_witness:
  "fill_diagonal (zeros 4 4) (zeros 0 2) = Inl ZeroDivisionError \<and>
   fill_diagonal (zeros 4 6) (mk_matrix [[1, 2], [3, 4]]) = Inl AssertionError \<and>
   shape_of (fill_diagonal (zeros 5 5) (mk_matrix [[1, 2], [3, 4]])) = Inr (5, 5) \<and>
   entry_of (fill_diagonal (zeros 5 5) (mk_matrix [[1, 2], [3, 4]])) 3 2 = Inr 3"
proof -
  let ?F = "mk_matrix [[1, 2], [3, 4::real]]"
  have h1: "nrows (zeros 0 2) = 0 \<or> ncols (zeros 0 2) = 0" by simp
  have h2: "0 < nrows ?F \<and> 0 < ncols ?F \<and>
      rat_of_nat (nrows (zeros 4 6)) / rat_of_nat (nrows ?F)
      \<noteq> rat_of_nat (ncols (zeros 4 6)) / rat_of_nat (ncols ?F)"
    by (simp add: mk_matrix_def)
  have h3: "0 < nrows ?F \<and> 0 < ncols ?F \<and>
      rat_of_nat (nrows (zeros 5 5)) / rat_of_nat (nrows ?F)
      = rat_of_nat (ncols (zeros 5 5)) / rat_of_nat (ncols ?F)"
    by (simp add: mk_matrix_def)
  have v: "(if 3 div nrows ?F = 2 div ncols ?F \<and> 3 div nrows ?F < nrows (zeros 5 5) div nrows ?F
            then entry ?F (3 mod nrows ?F) (2 mod ncols ?F) else entry (zeros 5 5) 3 2) = 3"
    by code_simp
  from fill_diagonal_ratio_check[of "zeros 0 2" "zeros 4 4"] h1
  have 1: "fill_diagonal (zeros 4 4) (zeros 0 2) = Inl ZeroDivisionError" by blast
  from fill_diagonal_ratio_check[of ?F "zeros 4 6"] h2
  have 2: "fill_diagonal (zeros 4 6) ?F = Inl AssertionError" by blast
  from fill_diagonal_ratio_check[of ?F "zeros 5 5" 3 2] h3
  have 3: "shape_of (fill_diagonal (zeros 5 5) ?F) = Inr (5, 5)"
    "entry_of (fill_diagonal (zeros 5 5) ?F) 3 2 = Inr 3"
    unfolding v by simp_all
  from 1 2 3 show ?thesis by simp
qed

subsection \<open>C3: the Jacobian of Step\<close>

text \<open>
  C3 says that \<open>Step.get_jacobi\<close> returns an all-zero square matrix of size
  \<open>dimension(self)\<close>. The code passes the method \<open>self.dimension\<close> itself to \<open>np.zeros\<close>, where
  \<open>Add\<close> and \<open>MatMul\<close> call it, so for every node and every argument the call raises
  \<open>TypeError\<close> and returns no matrix.
\<close>

theorem Step_get_jacobi_raises_TypeError:
  "Step_get_jacobi g self parent = Inl TypeError"
  by (simp add: Step_get_jacobi_def np_zeros_def)

subsection \<open>C4: the parents' values are left alone\<close>

text \<open>
  C4 says that no \<open>compute\<close> changes the value of a parent. \<open>SoftMax.compute\<close> hands the
  parent's own array to \<open>SoftMax.softmax\<close>, which clips it in place: a parent holding
  \<open>[[200, 1]]\<close> holds \<open>[[100, 1]]\<close> after the call (\<open>logistic.compute\<close> clips a copy).
\<close>

theorem SoftMax_compute_clips_parent_value:
  "value_after (SoftMax_compute softmax_graph 1) 0 = Inr [[100, 1]]
   \<and> tolist (nvalue (softmax_graph 0)) = [[200, 1]]
   \<and> parents (softmax_graph 1) = [0]"
  by (simp add: value_after_def SoftMax_compute_def SoftMax_softmax_def softmax_graph_def
      graph_of_def getitem_def set_value_def tolist_def mk_matrix_def Let_def upt_rec)

subsection \<open>C5: SoftMax has no Jacobian\<close>

text \<open>
  C5: \<open>SoftMax.get_jacobi\<close> raises \<open>NotImplementedError\<close> for every node and every argument;
  \<open>SoftMax.compute\<close> never raises it, and returns whenever the node has a parent to read.
\<close>

theorem SoftMax_get_jacobi_not_implemented:
  "SoftMax_get_jacobi g self parent = Inl NotImplementedError
   \<and> SoftMax_compute g self \<noteq> Inl NotImplementedError
   \<and> (parents (g self) \<noteq> [] \<longrightarrow> (\<exists>g'. SoftMax_compute g self = Inr g'))"
  by (auto simp: SoftMax_get_jacobi_def SoftMax_compute_def getitem_def split: prod.splits)

theorem SoftMax_get_jacobi_not_implemented_witness:
  "SoftMax_get_jacobi softmax_graph 1 0 = Inl NotImplementedError
   \<and> parents (softmax_graph 1) \<noteq> []
   \<and> (\<exists>g'. SoftMax_compute softmax_graph 1 = Inr g')"
  using SoftMax_get_jacobi_not_implemented[of softmax_graph 1 0]
  by (simp add: softmax_graph_def graph_of_def)

subsection \<open>C6: the shape of a Jacobian\<close>

text \<open>
  C6, as stated, says that the Jacobian returned for a parent has \<open>dimension(parent)\<close>
  columns. \<open>Add.compute\<close> accepts a parent that broadcasts to the shape of the first one:
  with a \<open>2\<times>2\<close> and a \<open>1\<times>1\<close> parent the Jacobian with respect to the second is the
  \<open>4\<times>4\<close> identity, and the dimension of that parent is 1.
\<close>

theorem Add_jacobi_columns_counterexample:
  "jacobi_shape (jacobi_after Add_compute Add_get_jacobi add_graph 2 1) = Inr (4, 4)
   \<and> dimensions_after (jacobi_after Add_compute Add_get_jacobi add_graph 2 1) 2 1 = Inr (4, 1)
   \<and> 1 \<in> set (parents (add_graph 2))"
  by code_simp

text \<open>
  C6, amended: for \<open>MatMul\<close>, \<open>Add\<close> and \<open>logistic\<close>, a matrix returned by \<open>get_jacobi(p)\<close>
  after \<open>compute\<close> has \<open>dimension(self)\<close> rows. For \<open>MatMul\<close> it has \<open>dimension(p)\<close> columns.
  For \<open>Add\<close> and \<open>logistic\<close> it is square, and its column count is \<open>dimension(p)\<close> when
  \<open>p\<close> is another node whose value has the shape of the first parent's. In the theorem
  \<open>s\<close> is the shape of the Jacobian and \<open>d\<close> the pair of \<open>dimension(self)\<close> and
  \<open>dimension(p)\<close> after \<open>compute\<close>. (\<open>Step\<close> is the subject of C3.)
\<close>

theorem get_jacobi_shape:
  "(jacobi_shape (jacobi_after MatMul_compute MatMul_get_jacobi g self p) = Inr s \<and>
    dimensions_after (jacobi_after MatMul_compute MatMul_get_jacobi g self p) self p = Inr d
    \<longrightarrow> s = d) \<and>
   (jacobi_shape (jacobi_after Add_compute Add_get_jacobi g self p) = Inr s \<and>
    dimensions_after (jacobi_after Add_compute Add_get_jacobi g self p) self p = Inr d
    \<longrightarrow> s = (fst d, fst d) \<and>
        (p \<noteq> self \<and> shape g p = shape g (parents (g self) ! 0) \<longrightarrow> s = d)) \<and>
   (jacobi_shape (jacobi_after logistic_compute logistic_get_jacobi g self p) = Inr s \<and>
    dimensions_after (jacobi_after logistic_compute logistic_get_jacobi g self p) self p = Inr d
    \<longrightarrow> s = (fst d, fst d) \<and>
        (p \<noteq> self \<and> shape g p = shape g (parents (g self) ! 0) \<longrightarrow> s = d))"
proof (intro conjI impI)
  assume "jacobi_shape (jacobi_after MatMul_compute MatMul_get_jacobi g self p) = Inr s \<and>
    dimensions_after (jacobi_after MatMul_compute MatMul_get_jacobi g self p) self p = Inr d"
  then obtain g' J where r: "MatMul_get_jacobi g' self p = Inr J"
    "s = (nrows J, ncols J)" "d = (dimension g' self, dimension g' p)"
    using jacobi_after_Inr[of MatMul_compute MatMul_get_jacobi g self p s d] by blast
  show "s = d" unfolding r(2,3) using MatMul_get_jacobi_shape[OF r(1)] by simp
next
  assume "jacobi_shape (jacobi_after Add_compute Add_get_jacobi g self p) = Inr s \<and>
    dimensions_after (jacobi_after Add_compute Add_get_jacobi g self p) self p = Inr d"
  then obtain g' J where r: "Add_compute g self = Inr g'" "Add_get_jacobi g' self p = Inr J"
    "s = (nrows J, ncols J)" "d = (dimension g' self, dimension g' p)"
    using jacobi_after_Inr[of Add_compute Add_get_jacobi g self p s d] by blast
  have J: "J = np_eye (dimension g' self)" using r(2) by (simp add: Add_get_jacobi_def)
  show sq: "s = (fst d, fst d)" unfolding r(3,4) J by simp
  assume "p \<noteq> self \<and> shape g p = shape g (parents (g self) ! 0)"
  then have "g' p = g p" "shape g p = shape g' self" using Add_compute_frame[OF r(1)] by simp_all
  then have "shape g' p = shape g' self" by (simp add: shape_def)
  then have "dimension g' p = dimension g' self" by (rule same_shape_dimension)
  then show "s = d" unfolding r(3,4) J by simp
next
  assume "jacobi_shape (jacobi_after logistic_compute logistic_get_jacobi g self p) = Inr s \<and>
    dimensions_after (jacobi_after logistic_compute logistic_get_jacobi g self p) self p = Inr d"
  then obtain g' J where r: "logistic_compute g self = Inr g'" "logistic_get_jacobi g' self p = Inr J"
    "s = (nrows J, ncols J)" "d = (dimension g' self, dimension g' p)"
    using jacobi_after_Inr[of logistic_compute logistic_get_jacobi g self p s d] by blast
  from logistic_get_jacobi_aux[of g' self p] obtain J' where
    "logistic_get_jacobi g' self p = Inr J'" "nrows J' = dimension g' self"
    "ncols J' = dimension g' self" by blast
  with r(2) have J: "nrows J = dimension g' self" "ncols J = dimension g' self" by simp_all
  show sq: "s = (fst d, fst d)" unfolding r(3,4) J by simp
  assume "p \<noteq> self \<and> shape g p = shape g (parents (g self) ! 0)"
  then have "g' p = g p" "shape g p = shape g' self" using logistic_compute_frame[OF r(1)] by simp_all
  then have "shape g' p = shape g' self" by (simp add: shape_def)
  then have "dimension g' p = dimension g' self" by (rule same_shape_dimension)
  then show "s = d" unfolding r(3,4) J by simp
qed

theorem get_jacobi_shape_witness:
  "jacobi_shape (jacobi_after MatMul_compute MatMul_get_jacobi matmul_graph 2 1) = Inr (4, 4)
   \<and> jacobi_shape (jacobi_after Add_compute Add_get_jacobi sum_graph 2 1) = Inr (4, 4)
   \<and> jacobi_shape (jacobi_after logistic_compute logistic_get_jacobi logistic_graph 1 0)
       = Inr (4, 4)"
proof -
  let ?m = "jacobi_after MatMul_compute MatMul_get_jacobi matmul_graph 2 1"
  let ?a = "jacobi_after Add_compute Add_get_jacobi sum_graph 2 1"
  let ?l = "jacobi_after logistic_compute logistic_get_jacobi logistic_graph 1 0"
  have dm: "dimensions_after ?m 2 1 = Inr (4, 4)" and rm: "\<not> isl (jacobi_shape ?m)"
    by code_simp+
  have da: "dimensions_after ?a 2 1 = Inr (4, 4)" and ra: "\<not> isl (jacobi_shape ?a)"
    and pa: "(1::nat) \<noteq> 2 \<and> shape sum_graph 1 = shape sum_graph (parents (sum_graph 2) ! 0)"
    by code_simp+
  have dl: "dimensions_after ?l 1 0 = Inr (4, 4)" and rl: "\<not> isl (jacobi_shape ?l)"
    using logistic_example by simp_all
  have pl: "(0::nat) \<noteq> 1
      \<and> shape logistic_graph 0 = shape logistic_graph (parents (logistic_graph 1) ! 0)"
    by code_simp
  from rm obtain sm where sm: "jacobi_shape ?m = Inr sm" by (cases "jacobi_shape ?m") auto
  from ra obtain sa where sa: "jacobi_shape ?a = Inr sa" by (cases "jacobi_shape ?a") auto
  from rl obtain sl where sl: "jacobi_shape ?l = Inr sl" by (cases "jacobi_shape ?l") auto
  from get_jacobi_shape[of matmul_graph 2 1 sm "(4, 4)"] sm dm have "sm = (4, 4)" by blast
  moreover from get_jacobi_shape[of sum_graph 2 1 sa "(4, 4)"] sa da pa have "sa = (4, 4)" by blast
  moreover from get_jacobi_shape[of logistic_graph 1 0 sl "(4, 4)"] sl dl pl have "sl = (4, 4)"
    by blast
  ultimately show ?thesis using sm sa sl by simp
qed

subsection \<open>C7: a node that is not a parent\<close>

text \<open>
  C7, as stated, says that \<open>get_jacobi\<close> never returns an identity or zero matrix for a
  node that is not a parent. \<open>Add.get_jacobi\<close> does not look at its argument: for node 3,
  which is not a parent of the \<open>Add\<close> node 2, it returns the identity.
\<close>

theorem Add_get_jacobi_non_parent_counterexample:
  "3 \<notin> set (parents (add_graph 2))
   \<and> map_sum id is_identity_matrix (Add_get_jacobi add_graph 2 3) = Inr True
   \<and> jacobi_rows (jacobi_after Add_compute Add_get_jacobi add_graph 2 3)
      = Inr [[1, 0, 0, 0], [0, 1, 0, 0], [0, 0, 1, 0], [0, 0, 0, 1]]"
  by code_simp

text \<open>
  C7, amended: no operator checks that the queried node is among its parents.
  \<open>Add.get_jacobi\<close> returns the identity of size \<open>dimension(self)\<close> for every node,
  \<open>logistic.get_jacobi\<close> returns the same result for every node, \<open>SoftMax.get_jacobi\<close> raises
  \<open>NotImplementedError\<close> for every node, and \<open>MatMul.get_jacobi\<close> treats every node other
  than the first parent as the right operand: two such nodes of equal shape get the same
  result, parent or not.
\<close>

theorem get_jacobi_ignores_membership:
  "map_sum id is_identity_matrix (Add_get_jacobi g self p) = Inr True
   \<and> shape_of (Add_get_jacobi g self p) = Inr (dimension g self, dimension g self)
   \<and> logistic_get_jacobi g self p = logistic_get_jacobi g self q
   \<and> SoftMax_get_jacobi g self p = Inl NotImplementedError
   \<and> (getitem (parents (g self)) 0 = Inr a \<and> p \<noteq> a \<and> q \<noteq> a \<and> shape g p = shape g q
        \<longrightarrow> MatMul_get_jacobi g self p = MatMul_get_jacobi g self q)"
proof (intro conjI impI)
  show "map_sum id is_identity_matrix (Add_get_jacobi g self p) = Inr True"
    by (simp add: Add_get_jacobi_def np_eye_identity)
  show "shape_of (Add_get_jacobi g self p) = Inr (dimension g self, dimension g self)"
    by (simp add: Add_get_jacobi_def shape_of_def)
  show "logistic_get_jacobi g self p = logistic_get_jacobi g self q"
    by (simp add: logistic_get_jacobi_def)
  show "SoftMax_get_jacobi g self p = Inl NotImplementedError"
    by (simp add: SoftMax_get_jacobi_def)
  assume h: "getitem (parents (g self)) 0 = Inr a \<and> p \<noteq> a \<and> q \<noteq> a \<and> shape g p = shape g q"
  then show "MatMul_get_jacobi g self p = MatMul_get_jacobi g self q"
    by (intro MatMul_get_jacobi_other[of g self a]) simp_all
qed

theorem get_jacobi_ignores_membership_witness:
  "3 \<notin> set (parents (matmul_graph 2)) \<and> 1 \<in> set (parents (matmul_graph 2))
   \<and> MatMul_get_jacobi matmul_graph 2 1 = MatMul_get_jacobi matmul_graph 2 3
   \<and> map_sum id is_identity_matrix (Add_get_jacobi add_graph 2 3) = Inr True
   \<and> shape_of (Add_get_jacobi add_graph 2 3) = Inr (4, 4)"
proof -
  have h: "getitem (parents (matmul_graph 2)) 0 = Inr 0 \<and> (1::nat) \<noteq> 0 \<and> (3::nat) \<noteq> 0
      \<and> shape matmul_graph 1 = shape matmul_graph 3"
    by code_simp
  have m: "3 \<notin> set (parents (matmul_graph 2)) \<and> 1 \<in> set (parents (matmul_graph 2))"
    by code_simp
  have d: "dimension add_graph 2 = 4" by code_simp
  from get_jacobi_ignores_membership[of matmul_graph 2 1 3 0] h
  have 1: "MatMul_get_jacobi matmul_graph 2 1 = MatMul_get_jacobi matmul_graph 2 3" by blast
  from get_jacobi_ignores_membership[of add_graph 2 3]
  have 2: "map_sum id is_identity_matrix (Add_get_jacobi add_graph 2 3) = Inr True"
    "shape_of (Add_get_jacobi add_graph 2 3) = Inr (4, 4)"
    unfolding d by blast+
  from m 1 2 show ?thesis by simp
qed

subsection \<open>C8: the value of SoftMax\<close>




subsection \<open>C9: the Jacobian of logistic\<close>

text \<open>
  C9, as stated, takes the \<open>i\<close>-th diagonal entry from the \<open>i\<close>-th flattened entry of the
  value, and the specification flattens in column-major order. For the \<open>2\<times>2\<close> value
  \<open>[[1/2, 1/4], [1/8, 3/4]]\<close> the diagonal entry at index 1 is \<open>1/4 \<cdot> 3/4 = 3/16\<close>; the
  column-major entry at index 1 is \<open>1/8\<close>, which would give \<open>7/64\<close>.
\<close>

theorem logistic_jacobi_column_major_counterexample:
  "entry_of (logistic_get_jacobi logistic_graph 1 0) 1 1
     \<noteq> Inr (vec_col (nvalue (logistic_graph 1)) ! 1 * (1 - vec_col (nvalue (logistic_graph 1)) ! 1))
   \<and> entry_of (logistic_get_jacobi logistic_graph 1 0) 1 1 = Inr (3 / 16)
   \<and> vec_col (nvalue (logistic_graph 1)) ! 1 * (1 - vec_col (nvalue (logistic_graph 1)) ! 1) = 7 / 64
   \<and> tolist (nvalue (logistic_graph 1)) = [[1 / 2, 1 / 4], [1 / 8, 3 / 4]]"
  by code_simp

text \<open>
  C9, amended: \<open>logistic.get_jacobi\<close> returns, for every node and every argument, a
  square matrix of size \<open>dimension(self)\<close> whose \<open>i\<close>-th diagonal entry is
  \<open>v\<^sub>i \<cdot> (1 - v\<^sub>i)\<close>, where \<open>v\<^sub>i\<close> is the \<open>i\<close>-th entry of the node's value flattened in
  row-major order (the order of \<open>.A1\<close>), and whose other entries are zero.
\<close>

theorem logistic_get_jacobi_diagonal:
  "shape_of (logistic_get_jacobi g self p) = Inr (dimension g self, dimension g self)
   \<and> (i < dimension g self \<and> j < dimension g self \<longrightarrow>
        entry_of (logistic_get_jacobi g self p) i j =
          Inr (if i = j then vec_row (nvalue (g self)) ! i * (1 - vec_row (nvalue (g self)) ! i)
               else 0))"
proof -
  from logistic_get_jacobi_aux[of g self p] obtain J where
    J: "logistic_get_jacobi g self p = Inr J" "nrows J = dimension g self"
      "ncols J = dimension g self"
      "\<forall>i<dimension g self. \<forall>j<dimension g self. entry J i j =
           (if i = j then ravel (nvalue (g self)) ! i * (1 - ravel (nvalue (g self)) ! i)
            else 0)"
    by blast
  show ?thesis unfolding J(1) vec_row_def using J(2,3,4) by (simp add: shape_of_def entry_of_def)
qed

theorem logistic_get_jacobi_diagonal_witness:
  "shape_of (logistic_get_jacobi logistic_graph 1 0) = Inr (4, 4)
   \<and> entry_of (logistic_get_jacobi logistic_graph 1 0) 1 1 = Inr (3 / 16)
   \<and> entry_of (logistic_get_jacobi logistic_graph 1 0) 2 2 = Inr (7 / 64)
   \<and> entry_of (logistic_get_jacobi logistic_graph 1 0) 1 2 = Inr 0"
proof -
  have d: "dimension logistic_graph 1 = 4" by code_simp
  have v: "vec_row (nvalue (logistic_graph 1)) ! 1 * (1 - vec_row (nvalue (logistic_graph 1)) ! 1) = 3 / 16"
    "vec_row (nvalue (logistic_graph 1)) ! 2 * (1 - vec_row (nvalue (logistic_graph 1)) ! 2) = 7 / 64"
    by code_simp+
  from logistic_get_jacobi_diagonal[of logistic_graph 1 0 1 1]
    logistic_get_jacobi_diagonal[of logistic_graph 1 0 2 2]
    logistic_get_jacobi_diagonal[of logistic_graph 1 0 1 2]
  show ?thesis unfolding d v by simp
qed

subsection \<open>C10: Add\<close>

text \<open>
  C10: for a node with at least one parent, all parents of one shape \<open>(r, c)\<close> and the node
  not among its own parents, \<open>Add.compute\<close> returns and sets the node's value to the
  entrywise sum of the parents' values, and \<open>Add.get_jacobi\<close> then returns, whichever node
  is queried, the identity matrix of size \<open>dimension(self) = r \<cdot> c\<close>.
\<close>

theorem Add_compute_sum_and_identity:
  assumes "parents (g self) \<noteq> []" and "self \<notin> set (parents (g self))"
    and "\<forall>p\<in>set (parents (g self)). shape g p = (r, c)"
  shows "\<exists>g'. Add_compute g self = Inr g' \<and> shape g' self = (r, c)
     \<and> (\<forall>i<r. \<forall>j<c. entry (nvalue (g' self)) i j =
           sum_list (map (\<lambda>p. entry (nvalue (g p)) i j) (parents (g self))))
     \<and> (\<forall>p. Add_get_jacobi g' self p = Inr (np_eye (r * c)))
     \<and> nrows (np_eye (r * c)) = dimension g' self \<and> ncols (np_eye (r * c)) = dimension g' self
     \<and> is_identity_matrix (np_eye (r * c))"
proof -
  from Add_compute_sum_aux[OF assms] obtain g' where
    g': "Add_compute g self = Inr g'" "shape g' self = (r, c)"
      "\<forall>i<r. \<forall>j<c. entry (nvalue (g' self)) i j =
          sum_list (map (\<lambda>p. entry (nvalue (g p)) i j) (parents (g self)))"
    by blast
  have d: "dimension g' self = r * c" using g'(2) by (simp add: shape_def dimension_def)
  have "\<forall>p. Add_get_jacobi g' self p = Inr (np_eye (r * c))"
    by (simp add: Add_get_jacobi_def d)
  with g' d show ?thesis by (simp add: np_eye_identity)
qed

theorem Add_compute_sum_and_identity_witness:
  "\<exists>g'. Add_compute sum_graph 2 = Inr g' \<and> shape g' 2 = (2, 2)
     \<and> entry (nvalue (g' 2)) 1 0 = 33
     \<and> Add_get_jacobi g' 2 0 = Inr (np_eye 4) \<and> Add_get_jacobi g' 2 1 = Inr (np_eye 4)"
proof -
  have h: "parents (sum_graph 2) \<noteq> []" "2 \<notin> set (parents (sum_graph 2))"
    "\<forall>p\<in>set (parents (sum_graph 2)). shape sum_graph p = (2, 2)"
    by code_simp+
  have v: "sum_list (map (\<lambda>p. entry (nvalue (sum_graph p)) 1 0) (parents (sum_graph 2))) = 33"
    by code_simp
  from Add_compute_sum_and_identity[OF h] obtain g' where
    g': "Add_compute sum_graph 2 = Inr g'" "shape g' 2 = (2, 2)"
      "\<forall>i<2. \<forall>j<2. entry (nvalue (g' 2)) i j =
           sum_list (map (\<lambda>p. entry (nvalue (sum_graph p)) i j) (parents (sum_graph 2)))"
      "\<forall>p. Add_get_jacobi g' 2 p = Inr (np_eye (2 * 2))"
    by blast
  from g'(3) have "entry (nvalue (g' 2)) 1 0 = 33" unfolding v[symmetric] by simp
  with g' show ?thesis by simp
qed

end
